theory Spec2Isabelle
  imports Complex_Main "HOL-Library.Sublist" "HOL-Library.Log_Nat"
begin

section \<open>Data model of the fridge manager\<close>

text \<open>
  The component \<open>FridgeManager\<close> keeps two ordered collections, foods and recipes, and
  derives views from them.

  A string is the list of its UTF-16 code units, each a natural number; \<open>str\<close> writes
  a string of ASCII characters. \<open>String.prototype.toLowerCase\<close> is an argument of the
  functions that call it, so what is proved of them holds for the case mapping of the
  runtime, whatever its table of cased letters is.

  A JavaScript \<open>number\<close> is either \<open>NaN\<close> or a finite value, the real number it denotes
  (the two infinities are not modelled). The sum that makes the identity of a food is
  rounded to the nearest double. The day count divides a whole number of milliseconds by
  the milliseconds of a day and is computed exactly.

  The fields of the three interfaces share names in the source (\<open>name\<close>, \<open>quantity\<close>,
  \<open>unit\<close>, \<open>id\<close>); a field is suffixed with the initial of its interface.
\<close>

type_synonym jsstring = "nat list"

definition str :: "string \<Rightarrow> jsstring" where
  "str s = map of_char s"

datatype number = NaN | Num real

text \<open>\<open>Omit<Food, 'id' | 'dateAdded'>\<close>, which is also the shape of the food form's data.\<close>

record FoodData =
  name_f :: jsstring
  category_f :: jsstring
  quantity_f :: number
  unit_f :: jsstring
  expiryDate_f :: jsstring
  notes_f :: jsstring

record Food = FoodData +
  id_f :: real
  dateAdded_f :: jsstring

record Ingredient =
  name_i :: jsstring
  quantity_i :: number
  unit_i :: jsstring

text \<open>\<open>Omit<Recipe, 'id' | 'dateCreated'>\<close>, the shape of the recipe form's data.\<close>

record RecipeData =
  name_r :: jsstring
  description_r :: jsstring
  instructions_r :: jsstring
  cookingTime_r :: jsstring
  servings_r :: number
  ingredients_r :: "Ingredient list"

record Recipe = RecipeData +
  id_r :: real
  dateCreated_r :: jsstring

subsection \<open>Comparisons of numbers\<close>

text \<open>\<open>a >= b\<close>, \<open>a <= b\<close> and \<open>a < b\<close> on numbers: false as soon as one side is \<open>NaN\<close>.\<close>

fun js_ge :: "number \<Rightarrow> number \<Rightarrow> bool" where
  "js_ge (Num a) (Num b) = (b \<le> a)"
| "js_ge _ _ = False"

fun js_le :: "number \<Rightarrow> number \<Rightarrow> bool" where
  "js_le (Num a) (Num b) = (a \<le> b)"
| "js_le _ _ = False"

fun js_lt :: "number \<Rightarrow> number \<Rightarrow> bool" where
  "js_lt (Num a) (Num b) = (a < b)"
| "js_lt _ _ = False"

subsection \<open>Rounding to a double\<close>

text \<open>
  A double has 53 significant bits. \<open>binade x\<close> is the exponent \<open>e\<close> with
  \<open>2 ^ e \<le> x < 2 ^ (e + 1)\<close> for a positive \<open>x\<close>, \<open>ulp x\<close> the distance between the doubles
  of that binade, and \<open>fl x\<close> the double nearest to \<open>x\<close>, the even one of two nearest
  (overflow and subnormal numbers are not modelled). The sum of two doubles is the
  rounded sum of the reals.
\<close>

definition round_half_even :: "real \<Rightarrow> int" where
  "round_half_even q =
     (let f = \<lfloor>q\<rfloor>; d = q - of_int f
      in if d < 1 / 2 then f else if 1 / 2 < d then f + 1 else if even f then f else f + 1)"

definition binade :: "real \<Rightarrow> int" where
  "binade x = (if 1 \<le> x then bitlen \<lfloor>x\<rfloor> - 1 else - bitlen (\<lceil>1 / x\<rceil> - 1))"

definition ulp :: "real \<Rightarrow> real" where
  "ulp x = (let k = binade x - 52 in if 0 \<le> k then 2 ^ nat k else 1 / 2 ^ nat (- k))"

definition fl :: "real \<Rightarrow> real" where
  "fl x = (if x = 0 then 0
           else sgn x * of_int (round_half_even (\<bar>x\<bar> / ulp \<bar>x\<bar>)) * ulp \<bar>x\<bar>)"

definition js_add :: "real \<Rightarrow> real \<Rightarrow> real" where
  "js_add a b = fl (a + b)"

subsection \<open>Strings\<close>

text \<open>\<open>s.startsWith(p)\<close> and \<open>s.includes(p)\<close>: \<open>p\<close> occurs in \<open>s\<close> at the front, or anywhere.\<close>

fun startsWith :: "jsstring \<Rightarrow> jsstring \<Rightarrow> bool" where
  "startsWith s [] = True"
| "startsWith [] (p # ps) = False"
| "startsWith (c # cs) (p # ps) = (c = p \<and> startsWith cs ps)"

fun includes_s :: "jsstring \<Rightarrow> jsstring \<Rightarrow> bool" where
  "includes_s [] p = (p = [])"
| "includes_s (c # cs) p = (startsWith (c # cs) p \<or> includes_s cs p)"

text \<open>
  \<open>String.prototype.trim\<close> removes white space and line terminators from both ends:
  TAB, LF, VT, FF, CR, SP, NBSP, U+1680, U+2000 to U+200A, LS, PS, U+202F, U+205F,
  U+3000 and U+FEFF.
\<close>

definition isWhiteSpace :: "nat \<Rightarrow> bool" where
  "isWhiteSpace c =
     (c \<in> set [0x09, 0x0A, 0x0B, 0x0C, 0x0D, 0x20, 0xA0, 0x1680, 0x2028, 0x2029, 0x202F,
               0x205F, 0x3000, 0xFEFF]
      \<or> (0x2000 \<le> c \<and> c \<le> 0x200A))"

definition trim :: "jsstring \<Rightarrow> jsstring" where
  "trim s = rev (dropWhile isWhiteSpace (rev (dropWhile isWhiteSpace s)))"

section \<open>Derived views\<close>

subsection \<open>Recipe feasibility\<close>

text \<open>
  \<open>getAvailableRecipes\<close>: \<open>recipes.filter\<close> over \<open>ingredients.every\<close>, whose callback returns
  the result of \<open>foods.find\<close>; \<open>every\<close> reads it as a truth value, and a found food
  (an object) is true while \<open>undefined\<close> is false. The first argument is
  \<open>String.prototype.toLowerCase\<close>.
\<close>

definition foodMatches :: "(jsstring \<Rightarrow> jsstring) \<Rightarrow> Ingredient \<Rightarrow> Food \<Rightarrow> bool" where
  "foodMatches toLowerCase ingredient food =
     (includes_s (toLowerCase (name_f food)) (toLowerCase (name_i ingredient)) \<and>
      js_ge (quantity_f food) (quantity_i ingredient))"

definition truthy :: "'a option \<Rightarrow> bool" where
  "truthy availableFood = (case availableFood of None \<Rightarrow> False | Some _ \<Rightarrow> True)"

definition getAvailableRecipes ::
  "(jsstring \<Rightarrow> jsstring) \<Rightarrow> Recipe list \<Rightarrow> Food list \<Rightarrow> Recipe list" where
  "getAvailableRecipes toLowerCase recipes foods =
     filter (\<lambda>recipe.
       list_all (\<lambda>ingredient. truthy (find (foodMatches toLowerCase ingredient) foods))
         (ingredients_r recipe)) recipes"

subsection \<open>Expiry\<close>

text \<open>
  A \<open>Date\<close> object is its time value: milliseconds since the epoch, or none for an
  invalid date. \<open>new Date()\<close> reads the clock, so the clock reading \<open>now\<close> is an argument;
  one evaluation of a view uses one reading. \<open>new Date(expiryDate)\<close> parses a string with
  the engine's date parser, which is the argument \<open>parseDate\<close>.
\<close>

definition getTime :: "int option \<Rightarrow> number" where
  "getTime d = (case d of None \<Rightarrow> NaN | Some ms \<Rightarrow> Num (of_int ms))"

fun js_sub :: "number \<Rightarrow> number \<Rightarrow> number" where
  "js_sub (Num a) (Num b) = Num (a - b)"
| "js_sub _ _ = NaN"

text \<open>Division by a divisor other than zero (a zero divisor gives an infinity or \<open>NaN\<close>).\<close>

fun js_div :: "number \<Rightarrow> number \<Rightarrow> number" where
  "js_div (Num a) (Num b) = (if b = 0 then NaN else Num (a / b))"
| "js_div _ _ = NaN"

fun Math_ceil :: "number \<Rightarrow> number" where
  "Math_ceil (Num x) = Num (of_int \<lceil>x\<rceil>)"
| "Math_ceil NaN = NaN"

definition getDaysUntilExpiry :: "(jsstring \<Rightarrow> int option) \<Rightarrow> int \<Rightarrow> jsstring \<Rightarrow> number" where
  "getDaysUntilExpiry parseDate now expiryDate =
     (let today = Some now;
          expiry = parseDate expiryDate;
          diffTime = js_sub (getTime expiry) (getTime today)
      in Math_ceil (js_div diffTime (Num (1000 * 60 * 60 * 24))))"

text \<open>The parameter \<open>days\<close> has the default 3 when the caller passes nothing.\<close>

definition getExpiringFoods ::
  "(jsstring \<Rightarrow> int option) \<Rightarrow> int \<Rightarrow> Food list \<Rightarrow> number option \<Rightarrow> Food list" where
  "getExpiringFoods parseDate now foods daysArg =
     (let days = (case daysArg of None \<Rightarrow> Num 3 | Some d \<Rightarrow> d) in
      filter (\<lambda>food.
        let daysUntilExpiry = getDaysUntilExpiry parseDate now (expiryDate_f food)
        in js_le daysUntilExpiry days \<and> js_ge daysUntilExpiry (Num 0)) foods)"

definition getExpiredFoods :: "(jsstring \<Rightarrow> int option) \<Rightarrow> int \<Rightarrow> Food list \<Rightarrow> Food list" where
  "getExpiredFoods parseDate now foods =
     filter (\<lambda>food. js_lt (getDaysUntilExpiry parseDate now (expiryDate_f food)) (Num 0)) foods"

section \<open>Record lifecycle\<close>

text \<open>
  The part of the component's state that the lifecycle operations read and write.
  \<open>Date.now()\<close> is the argument \<open>now\<close> (whole milliseconds), \<open>Math.random()\<close> the argument
  \<open>rnd\<close>, and \<open>new Date().toISOString()\<close> the argument \<open>stamp\<close>.
\<close>

record State =
  foods :: "Food list"
  recipes :: "Recipe list"
  showAddFood :: bool
  showAddRecipe :: bool
  editingFood :: "Food option"
  editingRecipe :: "Recipe option"

text \<open>Reading a property of \<open>null\<close> throws.\<close>

datatype error = TypeError

definition addFood :: "State \<Rightarrow> int \<Rightarrow> real \<Rightarrow> jsstring \<Rightarrow> FoodData \<Rightarrow> State" where
  "addFood s now rnd stamp foodData =
     (let newFood = \<lparr>name_f = name_f foodData, category_f = category_f foodData,
            quantity_f = quantity_f foodData, unit_f = unit_f foodData,
            expiryDate_f = expiryDate_f foodData,
            notes_f = (if notes_f foodData = [] then [] else notes_f foodData),
            id_f = js_add (of_int now) rnd, dateAdded_f = stamp\<rparr>
      in s\<lparr>foods := foods s @ [newFood], showAddFood := False\<rparr>)"

definition updateFood :: "State \<Rightarrow> FoodData \<Rightarrow> error + State" where
  "updateFood s foodData =
     (case editingFood s of
        None \<Rightarrow> Inl TypeError
      | Some editing \<Rightarrow>
          let updatedFood = \<lparr>name_f = name_f foodData, category_f = category_f foodData,
                quantity_f = quantity_f foodData, unit_f = unit_f foodData,
                expiryDate_f = expiryDate_f foodData, notes_f = notes_f foodData,
                id_f = id_f editing, dateAdded_f = dateAdded_f editing\<rparr>
          in Inr (s\<lparr>foods := map (\<lambda>food. if id_f food = id_f updatedFood then updatedFood else food)
                                 (foods s),
                    editingFood := None\<rparr>))"

definition deleteFood :: "State \<Rightarrow> real \<Rightarrow> State" where
  "deleteFood s ident = s\<lparr>foods := filter (\<lambda>food. id_f food \<noteq> ident) (foods s)\<rparr>"

definition addRecipe :: "State \<Rightarrow> int \<Rightarrow> jsstring \<Rightarrow> RecipeData \<Rightarrow> State" where
  "addRecipe s now stamp recipeData =
     (let newRecipe = \<lparr>name_r = name_r recipeData, description_r = description_r recipeData,
            instructions_r = instructions_r recipeData, cookingTime_r = cookingTime_r recipeData,
            servings_r = servings_r recipeData, ingredients_r = ingredients_r recipeData,
            id_r = of_int now, dateCreated_r = stamp\<rparr>
      in s\<lparr>recipes := recipes s @ [newRecipe], showAddRecipe := False\<rparr>)"

definition updateRecipe :: "State \<Rightarrow> RecipeData \<Rightarrow> error + State" where
  "updateRecipe s recipeData =
     (case editingRecipe s of
        None \<Rightarrow> Inl TypeError
      | Some editing \<Rightarrow>
          let updatedRecipe = \<lparr>name_r = name_r recipeData,
                description_r = description_r recipeData,
                instructions_r = instructions_r recipeData,
                cookingTime_r = cookingTime_r recipeData, servings_r = servings_r recipeData,
                ingredients_r = ingredients_r recipeData,
                id_r = id_r editing, dateCreated_r = dateCreated_r editing\<rparr>
          in Inr (s\<lparr>recipes := map (\<lambda>recipe. if id_r recipe = id_r updatedRecipe
                                                then updatedRecipe else recipe) (recipes s),
                    editingRecipe := None\<rparr>))"

definition deleteRecipe :: "State \<Rightarrow> real \<Rightarrow> State" where
  "deleteRecipe s ident = s\<lparr>recipes := filter (\<lambda>recipe. id_r recipe \<noteq> ident) (recipes s)\<rparr>"

text \<open>
  The words of the specification for a delete: the first record with the identity goes,
  the others stay as they are.
\<close>

fun remove_first_matching :: "('a \<Rightarrow> bool) \<Rightarrow> 'a list \<Rightarrow> 'a list" where
  "remove_first_matching P [] = []"
| "remove_first_matching P (x # xs) = (if P x then xs else x # remove_first_matching P xs)"

section \<open>The food form\<close>

text \<open>
  \<open>handleSubmit\<close> and \<open>handleAddClick\<close> of \<open>FoodForm\<close> either show an alert and return, or
  hand the processed data to \<open>onSubmit\<close>. The form keeps the quantity as a number
  (\<open>parseFloat\<close> of the input, so possibly \<open>NaN\<close>); \<open>Number\<close> of a number is that number,
  and \<open>x || 1\<close> is 1 exactly when \<open>x\<close> is zero or \<open>NaN\<close>.
\<close>

datatype alert = NameRequired | ExpiryDateRequired

fun or_1 :: "number \<Rightarrow> number" where
  "or_1 NaN = Num 1"
| "or_1 (Num x) = (if x = 0 then Num 1 else Num x)"

definition handleSubmit :: "FoodData \<Rightarrow> alert + FoodData" where
  "handleSubmit formData =
     (if trim (name_f formData) = [] then Inl NameRequired
      else if expiryDate_f formData = [] then Inl ExpiryDateRequired
      else Inr (formData\<lparr>quantity_f := or_1 (quantity_f formData),
                          name_f := trim (name_f formData)\<rparr>))"

definition handleAddClick :: "FoodData \<Rightarrow> alert + FoodData" where
  "handleAddClick formData =
     (if trim (name_f formData) = [] then Inl NameRequired
      else if expiryDate_f formData = [] then Inl ExpiryDateRequired
      else Inr (formData\<lparr>quantity_f := or_1 (quantity_f formData),
                          name_f := trim (name_f formData)\<rparr>))"

section \<open>Concrete records\<close>

text \<open>The scenario of the specification: whole milk in stock, a recipe asking for milk.\<close>

definition wholeMilk :: Food where
  "wholeMilk = \<lparr>name_f = str ''Whole Milk'', category_f = str ''dairy'', quantity_f = Num 2,
     unit_f = str ''l'', expiryDate_f = str ''2025-01-10'', notes_f = [],
     id_f = 1736000000000.25, dateAdded_f = str ''2025-01-04T14:13:20.000Z''\<rparr>"

definition milkTwice :: Recipe where
  "milkTwice = \<lparr>name_r = str ''Rice pudding'', description_r = [],
     instructions_r = str ''Simmer.'', cookingTime_r = str ''40 min'', servings_r = Num 2,
     ingredients_r = [\<lparr>name_i = str ''milk'', quantity_i = Num 2, unit_i = str ''l''\<rparr>,
                      \<lparr>name_i = str ''MILK'', quantity_i = Num 1.5, unit_i = str ''l''\<rparr>],
     id_r = 1736000000500, dateCreated_r = str ''2025-01-04T14:13:20.500Z''\<rparr>"

text \<open>A date parser that knows two days (midnight UTC), and a clock reading on 8 January 2025.\<close>

definition sampleParse :: "jsstring \<Rightarrow> int option" where
  "sampleParse s = (if s = str ''2025-01-10'' then Some 1736467200000
                    else if s = str ''2025-01-07'' then Some 1736208000000 else None)"

definition sampleNow :: int where
  "sampleNow = 1736346600000"

definition plainToast :: Recipe where
  "plainToast = \<lparr>name_r = str ''Toast'', description_r = [],
     instructions_r = str ''Toast the bread.'', cookingTime_r = str ''5 min'', servings_r = Num 1,
     ingredients_r = [], id_r = 1736000000900, dateCreated_r = str ''2025-01-04T14:13:20.900Z''\<rparr>"

definition semiMilk :: Food where
  "semiMilk = \<lparr>name_f = str ''Milk'', category_f = str ''dairy'', quantity_f = Num 0.5,
     unit_f = str ''l'', expiryDate_f = str ''2025-01-07'', notes_f = [],
     id_f = 1736000000100.5, dateAdded_f = str ''2025-01-04T14:13:20.100Z''\<rparr>"

definition fridge :: State where
  "fridge = \<lparr>foods = [wholeMilk, semiMilk], recipes = [milkTwice, plainToast],
     showAddFood = False, showAddRecipe = False,
     editingFood = Some semiMilk, editingRecipe = Some plainToast\<rparr>"

definition editedMilk :: FoodData where
  "editedMilk = \<lparr>name_f = str ''Skimmed milk'', category_f = str ''dairy'', quantity_f = Num 1,
     unit_f = str ''l'', expiryDate_f = str ''2025-01-10'', notes_f = str ''opened''\<rparr>"

definition editedToast :: RecipeData where
  "editedToast = \<lparr>name_r = str ''Toast with butter'', description_r = str ''Quick'',
     instructions_r = str ''Toast the bread, spread the butter.'', cookingTime_r = str ''6 min'',
     servings_r = Num 2,
     ingredients_r = [\<lparr>name_i = str ''butter'', quantity_i = Num 10, unit_i = str ''g''\<rparr>]\<rparr>"

definition staleFood :: Food where
  "staleFood = \<lparr>name_f = str ''Butter'', category_f = str ''dairy'', quantity_f = Num 1,
     unit_f = str ''unit'', expiryDate_f = str ''2025-01-10'', notes_f = [],
     id_f = 1735000000000.75, dateAdded_f = str ''2024-12-24T00:26:40.000Z''\<rparr>"

definition staleRecipe :: Recipe where
  "staleRecipe = \<lparr>name_r = str ''Porridge'', description_r = [],
     instructions_r = str ''Boil.'', cookingTime_r = str ''10 min'', servings_r = Num 1,
     ingredients_r = [], id_r = 1735000000000, dateCreated_r = str ''2024-12-24T00:26:40.000Z''\<rparr>"

definition staleFridge :: State where
  "staleFridge = fridge\<lparr>editingFood := Some staleFood, editingRecipe := Some staleRecipe\<rparr>"

definition negativeForm :: FoodData where
  "negativeForm = \<lparr>name_f = str ''Milk'', category_f = str ''otros'', quantity_f = Num (- 5),
     unit_f = str ''unidad'', expiryDate_f = str ''2025-01-10'', notes_f = []\<rparr>"

text \<open>
  A case mapping for the examples: it agrees with \<open>String.prototype.toLowerCase\<close> on the
  strings whose code units are below 256 (the ASCII capitals, and the capitals U+00C0 to
  U+00DE but for the multiplication sign U+00D7, move up by 32).
\<close>

definition latin1Lower :: "jsstring \<Rightarrow> jsstring" where
  "latin1Lower s =
     map (\<lambda>c. if (65 \<le> c \<and> c \<le> 90) \<or> (192 \<le> c \<and> c \<le> 222 \<and> c \<noteq> 215) then c + 32 else c) s"

text \<open>
  A pineapple whose name is written in capitals, with the letter U+00D1, and recipes that
  ask for it in small letters (U+00F1), for one gram of butter, of which there is none
  though there is enough of other foods, and for more milk than there is.
\<close>

definition pineapple :: Food where
  "pineapple = \<lparr>name_f = [80, 73, 209, 65], category_f = str ''frutas'', quantity_f = Num 1,
     unit_f = str ''unidad'', expiryDate_f = str ''2025-01-10'', notes_f = [],
     id_f = 1736000000200.5, dateAdded_f = str ''2025-01-04T14:13:20.200Z''\<rparr>"

definition pineappleJuice :: Recipe where
  "pineappleJuice = \<lparr>name_r = str ''Juice'', description_r = [],
     instructions_r = str ''Blend.'', cookingTime_r = str ''5 min'', servings_r = Num 1,
     ingredients_r = [\<lparr>name_i = [112, 105, 241, 97], quantity_i = Num 1,
                       unit_i = str ''unidad''\<rparr>],
     id_r = 1736000000600, dateCreated_r = str ''2025-01-04T14:13:20.600Z''\<rparr>"

definition butterToast :: Recipe where
  "butterToast = \<lparr>name_r = str ''Butter toast'', description_r = [],
     instructions_r = str ''Toast, spread.'', cookingTime_r = str ''5 min'', servings_r = Num 1,
     ingredients_r = [\<lparr>name_i = str ''butter'', quantity_i = Num 1, unit_i = str ''g''\<rparr>],
     id_r = 1736000000700, dateCreated_r = str ''2025-01-04T14:13:20.700Z''\<rparr>"

definition milkFeast :: Recipe where
  "milkFeast = \<lparr>name_r = str ''Milk feast'', description_r = [],
     instructions_r = str ''Pour.'', cookingTime_r = str ''1 min'', servings_r = Num 8,
     ingredients_r = [\<lparr>name_i = str ''milk'', quantity_i = Num 5, unit_i = str ''l''\<rparr>],
     id_r = 1736000000800, dateCreated_r = str ''2025-01-04T14:13:20.800Z''\<rparr>"

text \<open>A second food with the identity of the whole milk, and a state that holds both.\<close>

definition twinMilk :: Food where
  "twinMilk = \<lparr>name_f = str ''Oat milk'', category_f = str ''bebidas'', quantity_f = Num 3,
     unit_f = str ''l'', expiryDate_f = str ''2025-01-07'', notes_f = [],
     id_f = 1736000000000.25, dateAdded_f = str ''2025-01-05T09:00:00.000Z''\<rparr>"

definition twinFridge :: State where
  "twinFridge = \<lparr>foods = [wholeMilk, twinMilk], recipes = [milkTwice, plainToast],
     showAddFood = False, showAddRecipe = False,
     editingFood = Some wholeMilk, editingRecipe = None\<rparr>"

text \<open>States in which only a food, or only a recipe, is being edited, and it is stale.\<close>

definition staleFoodFridge :: State where
  "staleFoodFridge = fridge\<lparr>editingFood := Some staleFood, editingRecipe := None\<rparr>"

definition staleRecipeFridge :: State where
  "staleRecipeFridge = fridge\<lparr>editingFood := None, editingRecipe := Some staleRecipe\<rparr>"

section \<open>Synchronization engine\<close>

text \<open>
  The component with the state of the synchronization and with the timers of the runtime
  made explicit. The runtime keeps the pending timeouts, each with the values its callback
  closes over: \<open>type\<close>, \<open>data\<close>, \<open>hash\<close>, and the \<open>lastFoodsSave\<close> and \<open>lastRecipesSave\<close> that
  \<open>debouncedSave\<close> held when the timeout was set. \<open>saveTimeoutRef\<close> holds, per collection,
  the identifier of the timeout set last. The clock counts milliseconds. \<open>saved\<close> lists
  the calls of \<open>foodsAPI.save\<close> and \<open>recipesAPI.save\<close>.

  A save is taken to complete at once. When it has set a new \<open>lastFoodsSave\<close> or
  \<open>lastRecipesSave\<close>, the component renders again with a new \<open>debouncedSave\<close>, which is a
  dependency of both effects, so both effects run again.
\<close>

datatype collection = FoodsC | RecipesC

datatype payload = FoodList "Food list" | RecipeList "Recipe list"

record Timer =
  timer_id :: nat
  fire_at :: nat
  t_type :: collection
  t_data :: payload
  t_hash :: jsstring
  t_lastFoodsSave :: jsstring
  t_lastRecipesSave :: jsstring

record Engine = State +
  isLoaded :: bool
  lastFoodsSave :: jsstring
  lastRecipesSave :: jsstring
  foodsFromServerRef :: bool
  recipesFromServerRef :: bool
  saveTimeoutRef :: "collection \<Rightarrow> nat option"
  clock :: nat
  timers :: "Timer list"
  nextTimerId :: nat
  saved :: "(collection \<times> payload) list"

text \<open>
  \<open>createDataHash\<close>: \<open>JSON.stringify\<close> of a copy of the data sorted by \<open>id\<close>; the sort is
  stable. \<open>JSON.stringify\<close> is the argument \<open>stringify\<close>.
\<close>

fun createDataHash :: "(payload \<Rightarrow> jsstring) \<Rightarrow> payload \<Rightarrow> jsstring" where
  "createDataHash stringify (FoodList items) = stringify (FoodList (sort_key id_f items))"
| "createDataHash stringify (RecipeList items) = stringify (RecipeList (sort_key id_r items))"

definition clearTimeout :: "nat \<Rightarrow> Timer list \<Rightarrow> Timer list" where
  "clearTimeout i ts = filter (\<lambda>t. timer_id t \<noteq> i) ts"

text \<open>The timeout that \<open>setTimeout(..., 500)\<close> makes inside \<open>debouncedSave\<close>.\<close>

definition newTimeout :: "Engine \<Rightarrow> collection \<Rightarrow> payload \<Rightarrow> jsstring \<Rightarrow> Timer" where
  "newTimeout e type dat hash =
     \<lparr>timer_id = nextTimerId e, fire_at = clock e + 500, t_type = type, t_data = dat,
      t_hash = hash, t_lastFoodsSave = lastFoodsSave e,
      t_lastRecipesSave = lastRecipesSave e\<rparr>"

definition debouncedSave :: "Engine \<Rightarrow> collection \<Rightarrow> payload \<Rightarrow> jsstring \<Rightarrow> Engine" where
  "debouncedSave e type dat hash =
     (let cleared = (case saveTimeoutRef e type of
                       Some i \<Rightarrow> clearTimeout i (timers e)
                     | None \<Rightarrow> timers e)
      in e\<lparr>timers := cleared @ [newTimeout e type dat hash],
           nextTimerId := Suc (nextTimerId e),
           saveTimeoutRef := (saveTimeoutRef e)(type \<mapsto> nextTimerId e)\<rparr>)"

text \<open>The two effects that run when \<open>foods\<close>, \<open>recipes\<close> or \<open>debouncedSave\<close> changed.\<close>

definition foodsEffect :: "(payload \<Rightarrow> jsstring) \<Rightarrow> Engine \<Rightarrow> Engine" where
  "foodsEffect stringify e =
     (if isLoaded e \<and> \<not> foodsFromServerRef e \<and> length (foods e) \<ge> 0
      then (let hash = createDataHash stringify (FoodList (foods e))
            in debouncedSave e FoodsC (FoodList (foods e)) hash)
      else e)"

definition recipesEffect :: "(payload \<Rightarrow> jsstring) \<Rightarrow> Engine \<Rightarrow> Engine" where
  "recipesEffect stringify e =
     (if isLoaded e \<and> \<not> recipesFromServerRef e \<and> length (recipes e) \<ge> 0
      then (let hash = createDataHash stringify (RecipeList (recipes e))
            in debouncedSave e RecipesC (RecipeList (recipes e)) hash)
      else e)"

text \<open>A render in which \<open>debouncedSave\<close> is new: both effects run, in their order.\<close>

definition rerunEffects :: "(payload \<Rightarrow> jsstring) \<Rightarrow> Engine \<Rightarrow> Engine" where
  "rerunEffects stringify e = recipesEffect stringify (foodsEffect stringify e)"

text \<open>
  The callback of a timeout: when the hash differs from the captured one, the save and
  the new last hash; when that changes the last hash, the effects run again.
\<close>

definition timerCallback :: "(payload \<Rightarrow> jsstring) \<Rightarrow> Engine \<Rightarrow> Timer \<Rightarrow> Engine" where
  "timerCallback stringify e t =
     (let currentHash = (if t_type t = FoodsC then t_lastFoodsSave t else t_lastRecipesSave t)
      in if t_hash t \<noteq> currentHash then
           (if t_type t = FoodsC
            then (let e1 = e\<lparr>saved := saved e @ [(FoodsC, t_data t)],
                             lastFoodsSave := t_hash t\<rparr>
                  in if lastFoodsSave e \<noteq> t_hash t then rerunEffects stringify e1 else e1)
            else (let e1 = e\<lparr>saved := saved e @ [(RecipesC, t_data t)],
                             lastRecipesSave := t_hash t\<rparr>
                  in if lastRecipesSave e \<noteq> t_hash t then rerunEffects stringify e1 else e1))
         else e)"

text \<open>
  The timeout that runs next: of the timeouts that are due, the one due first, and of
  those the one set first.
\<close>

definition next_due :: "Engine \<Rightarrow> Timer option" where
  "next_due e =
     (case sort_key fire_at (filter (\<lambda>t. fire_at t \<le> clock e) (timers e)) of
        [] \<Rightarrow> None
      | t # _ \<Rightarrow> Some t)"

text \<open>
  The timeouts that are due run one after the other, each removed from the pending ones
  before its callback runs. A callback sets timeouts for later only, so no more callbacks
  run than timeouts were pending.
\<close>

primrec run_due :: "(payload \<Rightarrow> jsstring) \<Rightarrow> nat \<Rightarrow> Engine \<Rightarrow> Engine" where
  "run_due stringify 0 e = e"
| "run_due stringify (Suc n) e =
     (case next_due e of
        None \<Rightarrow> e
      | Some t \<Rightarrow> run_due stringify n
                   (timerCallback stringify (e\<lparr>timers := remove1 t (timers e)\<rparr>) t))"

text \<open>One millisecond passes, and then any number of them.\<close>

definition tick :: "(payload \<Rightarrow> jsstring) \<Rightarrow> Engine \<Rightarrow> Engine" where
  "tick stringify e = run_due stringify (length (timers e)) (e\<lparr>clock := Suc (clock e)\<rparr>)"

primrec advance :: "(payload \<Rightarrow> jsstring) \<Rightarrow> Engine \<Rightarrow> nat \<Rightarrow> Engine" where
  "advance stringify e 0 = e"
| "advance stringify e (Suc n) = advance stringify (tick stringify e) n"

text \<open>A mutation sets the collection, and the effect of that collection runs.\<close>

fun kind :: "payload \<Rightarrow> collection" where
  "kind (FoodList _) = FoodsC"
| "kind (RecipeList _) = RecipesC"

fun onMutation :: "(payload \<Rightarrow> jsstring) \<Rightarrow> Engine \<Rightarrow> payload \<Rightarrow> Engine" where
  "onMutation stringify e (FoodList fs) = foodsEffect stringify (e\<lparr>foods := fs\<rparr>)"
| "onMutation stringify e (RecipeList rs) = recipesEffect stringify (e\<lparr>recipes := rs\<rparr>)"

text \<open>A burst: each mutation is followed by a wait.\<close>

fun burst :: "(payload \<Rightarrow> jsstring) \<Rightarrow> Engine \<Rightarrow> (payload \<times> nat) list \<Rightarrow> Engine" where
  "burst stringify e [] = e"
| "burst stringify e ((p, gap) # rest) =
     burst stringify (advance stringify (onMutation stringify e p) gap) rest"

subsection \<open>What is observed of a collection\<close>

definition working :: "Engine \<Rightarrow> collection \<Rightarrow> payload" where
  "working e c = (if c = FoodsC then FoodList (foods e) else RecipeList (recipes e))"

definition pending :: "Engine \<Rightarrow> collection \<Rightarrow> Timer list" where
  "pending e c = filter (\<lambda>t. t_type t = c) (timers e)"

definition saves_of :: "Engine \<Rightarrow> collection \<Rightarrow> payload list" where
  "saves_of e c = map snd (filter (\<lambda>w. fst w = c) (saved e))"

definition lastSave :: "Engine \<Rightarrow> collection \<Rightarrow> jsstring" where
  "lastSave e c = (if c = FoodsC then lastFoodsSave e else lastRecipesSave e)"

definition captured :: "collection \<Rightarrow> Timer \<Rightarrow> jsstring" where
  "captured c t = (if c = FoodsC then t_lastFoodsSave t else t_lastRecipesSave t)"

text \<open>The effect of a collection sets a timeout: the data is loaded and the guard is off.\<close>

definition armed :: "Engine \<Rightarrow> collection \<Rightarrow> bool" where
  "armed e c = (isLoaded e \<and> \<not> (if c = FoodsC then foodsFromServerRef e else recipesFromServerRef e))"

definition effect :: "(payload \<Rightarrow> jsstring) \<Rightarrow> collection \<Rightarrow> Engine \<Rightarrow> Engine" where
  "effect stringify c e = (if c = FoodsC then foodsEffect stringify e else recipesEffect stringify e)"

text \<open>The state once a save of collection \<open>c\<close> with the data \<open>d\<close> and the hash \<open>h\<close> is done.\<close>

definition saveDone :: "Engine \<Rightarrow> collection \<Rightarrow> payload \<Rightarrow> jsstring \<Rightarrow> Engine" where
  "saveDone e c d h =
     (if c = FoodsC then e\<lparr>saved := saved e @ [(FoodsC, d)], lastFoodsSave := h\<rparr>
      else e\<lparr>saved := saved e @ [(RecipesC, d)], lastRecipesSave := h\<rparr>)"

text \<open>The state once the collection of the payload \<open>p\<close> has been set to \<open>p\<close>.\<close>

fun setWorking :: "Engine \<Rightarrow> payload \<Rightarrow> Engine" where
  "setWorking e (FoodList fs) = e\<lparr>foods := fs\<rparr>"
| "setWorking e (RecipeList rs) = e\<lparr>recipes := rs\<rparr>"

text \<open>The collection differs from what was saved last.\<close>

definition dirty :: "(payload \<Rightarrow> jsstring) \<Rightarrow> Engine \<Rightarrow> collection \<Rightarrow> bool" where
  "dirty stringify e c = (createDataHash stringify (working e c) \<noteq> lastSave e c)"

definition ndirty :: "(payload \<Rightarrow> jsstring) \<Rightarrow> Engine \<Rightarrow> nat" where
  "ndirty stringify e =
     (if dirty stringify e FoodsC then 1 else 0) + (if dirty stringify e RecipesC then 1 else 0)"

subsection \<open>The states the engine reaches\<close>

text \<open>
  A pending timeout is the one that its collection's entry of \<open>saveTimeoutRef\<close> names;
  identifiers are handed out once, so the two entries differ.
\<close>

definition engine_ok :: "Engine \<Rightarrow> bool" where
  "engine_ok e =
     (list_all (\<lambda>t. saveTimeoutRef e (t_type t) = Some (timer_id t)) (timers e)
      \<and> distinct (map timer_id (timers e))
      \<and> (case saveTimeoutRef e FoodsC of None \<Rightarrow> True | Some i \<Rightarrow> i < nextTimerId e)
      \<and> (case saveTimeoutRef e RecipesC of None \<Rightarrow> True | Some i \<Rightarrow> i < nextTimerId e)
      \<and> (saveTimeoutRef e FoodsC = None \<or> saveTimeoutRef e FoodsC \<noteq> saveTimeoutRef e RecipesC))"

text \<open>
  A pending timeout was set by the effect of its collection after the last change of the
  collection and after the last save: it holds the data and the hash of the collection
  and the last hash, its collection is armed, and it is due within 500.
\<close>

definition up_to_date :: "(payload \<Rightarrow> jsstring) \<Rightarrow> Engine \<Rightarrow> Timer \<Rightarrow> bool" where
  "up_to_date stringify e t =
     (t_data t = working e (t_type t)
      \<and> t_hash t = createDataHash stringify (working e (t_type t))
      \<and> captured (t_type t) t = lastSave e (t_type t)
      \<and> armed e (t_type t)
      \<and> fire_at t \<le> clock e + 500)"

text \<open>
  While the timeouts of a millisecond run, none is overdue; between two milliseconds,
  none is due.
\<close>

definition consistent :: "(payload \<Rightarrow> jsstring) \<Rightarrow> Engine \<Rightarrow> bool" where
  "consistent stringify e =
     (engine_ok e \<and> list_all (up_to_date stringify e) (timers e)
      \<and> list_all (\<lambda>t. clock e \<le> fire_at t) (timers e))"

definition at_rest :: "(payload \<Rightarrow> jsstring) \<Rightarrow> Engine \<Rightarrow> bool" where
  "at_rest stringify e =
     (engine_ok e \<and> list_all (up_to_date stringify e) (timers e)
      \<and> list_all (\<lambda>t. clock e < fire_at t) (timers e))"



section \<open>Properties of the derived views\<close>

lemma startsWith_iff: "startsWith s p \<longleftrightarrow> (\<exists>b. s = p @ b)"
  by (induction s p rule: startsWith.induct) auto

lemma includes_iff: "includes_s s p \<longleftrightarrow> (\<exists>a b. s = a @ p @ b)"
proof (induction s)
  case Nil
  then show ?case by auto
next
  case (Cons c cs)
  show ?case
  proof
    assume "includes_s (c # cs) p"
    then consider "startsWith (c # cs) p" | "includes_s cs p" by auto
    then show "\<exists>a b. c # cs = a @ p @ b"
    proof cases
      case 1
      then obtain b where "c # cs = p @ b" using startsWith_iff by blast
      then have "c # cs = [] @ p @ b" by simp
      then show ?thesis by blast
    next
      case 2
      then obtain a b where "cs = a @ p @ b" using Cons.IH by blast
      then have "c # cs = (c # a) @ p @ b" by simp
      then show ?thesis by blast
    qed
  next
    assume "\<exists>a b. c # cs = a @ p @ b"
    then obtain a b where ab: "c # cs = a @ p @ b" by blast
    show "includes_s (c # cs) p"
    proof (cases a)
      case Nil
      with ab have "startsWith (c # cs) p" using startsWith_iff by auto
      then show ?thesis by simp
    next
      case (Cons x xs)
      with ab have "cs = xs @ p @ b" by simp
      then have "includes_s cs p" using Cons.IH by blast
      then show ?thesis by simp
    qed
  qed
qed

lemma js_ge_iff: "js_ge x y \<longleftrightarrow> (\<exists>a b. x = Num a \<and> y = Num b \<and> b \<le> a)"
  by (cases x; cases y) auto

lemma truthy_find: "truthy (find P xs) \<longleftrightarrow> (\<exists>x \<in> set xs. P x)"
  by (induction xs) (auto simp: truthy_def)

lemma foodMatches_iff:
  "foodMatches lower i f \<longleftrightarrow>
     (\<exists>a b. lower (name_f f) = a @ lower (name_i i) @ b) \<and>
     (\<exists>stock need. quantity_f f = Num stock \<and> quantity_i i = Num need \<and> need \<le> stock)"
  by (simp add: foodMatches_def includes_iff js_ge_iff)

lemma getAvailableRecipes_filter:
  "getAvailableRecipes lower rs fs =
     filter (\<lambda>r. \<forall>i \<in> set (ingredients_r r). \<exists>f \<in> set fs. foodMatches lower i f) rs"
  by (simp add: getAvailableRecipes_def list_all_iff truthy_find)

lemma str_eq_iff: "str a = str b \<longleftrightarrow> a = b"
  by (simp add: str_def inj_map_eq_map inj_of_char)

lemma latin1Lower_samples:
  "latin1Lower (str ''Whole Milk'') = str ''whole milk''"
  "latin1Lower (str ''milk'') = str ''milk''"
  "latin1Lower (str ''MILK'') = str ''milk''"
  "latin1Lower (str ''butter'') = str ''butter''"
  "latin1Lower [80, 73, 209, 65] = [112, 105, 241, 97]"
  "latin1Lower [112, 105, 241, 97] = [112, 105, 241, 97]"
  by (simp_all add: latin1Lower_def str_def)

lemma includes_samples:
  "includes_s (str ''whole milk'') (str ''milk'')"
  "\<not> includes_s (str ''whole milk'') (str ''butter'')"
  "\<not> includes_s (str ''whole milk'') [112, 105, 241, 97]"
  "includes_s [112, 105, 241, 97] [112, 105, 241, 97]"
  "\<not> includes_s [112, 105, 241, 97] (str ''butter'')"
  "\<not> includes_s [112, 105, 241, 97] (str ''milk'')"
  by (simp_all add: str_def)

lemma sample_foodMatches:
  "foodMatches latin1Lower \<lparr>name_i = str ''milk'', quantity_i = Num 2, unit_i = str ''l''\<rparr> wholeMilk"
  "foodMatches latin1Lower \<lparr>name_i = str ''MILK'', quantity_i = Num (3 / 2), unit_i = str ''l''\<rparr> wholeMilk"
  "\<not> foodMatches latin1Lower \<lparr>name_i = str ''milk'', quantity_i = Num 5, unit_i = str ''l''\<rparr> wholeMilk"
  "\<not> foodMatches latin1Lower \<lparr>name_i = str ''milk'', quantity_i = Num 5, unit_i = str ''l''\<rparr> pineapple"
  "\<not> foodMatches latin1Lower \<lparr>name_i = str ''butter'', quantity_i = Num 1, unit_i = str ''g''\<rparr> wholeMilk"
  "\<not> foodMatches latin1Lower \<lparr>name_i = str ''butter'', quantity_i = Num 1, unit_i = str ''g''\<rparr> pineapple"
  "foodMatches latin1Lower
     \<lparr>name_i = [112, 105, 241, 97], quantity_i = Num 1, unit_i = str ''unidad''\<rparr> pineapple"
  by (simp_all add: foodMatches_def wholeMilk_def pineapple_def latin1Lower_def str_def)

text \<open>
  C1. Whatever the case mapping \<open>lower\<close> of the runtime is, the available recipes are
  exactly the recipes, in their order, each of whose ingredients has some food such that
  the lower-cased name of the food contains the lower-cased name of the ingredient and
  the quantity of the food is a number at least the ingredient's quantity. Nothing is
  reserved: one food that matches every ingredient of a recipe makes it available.
\<close>

theorem availableRecipes_exact:
  "getAvailableRecipes lower rs fs =
     filter (\<lambda>r. \<forall>i \<in> set (ingredients_r r). \<exists>f \<in> set fs.
        (\<exists>a b. lower (name_f f) = a @ lower (name_i i) @ b) \<and>
        (\<exists>stock need. quantity_f f = Num stock \<and> quantity_i i = Num need \<and> need \<le> stock))
      rs
   \<and> (\<forall>r \<in> set rs. \<forall>f \<in> set fs.
        (\<forall>i \<in> set (ingredients_r r). foodMatches lower i f) \<longrightarrow>
        r \<in> set (getAvailableRecipes lower rs fs))"
proof
  show "getAvailableRecipes lower rs fs =
     filter (\<lambda>r. \<forall>i \<in> set (ingredients_r r). \<exists>f \<in> set fs.
        (\<exists>a b. lower (name_f f) = a @ lower (name_i i) @ b) \<and>
        (\<exists>stock need. quantity_f f = Num stock \<and> quantity_i i = Num need \<and> need \<le> stock))
      rs"
    by (simp add: getAvailableRecipes_filter foodMatches_iff)
  show "\<forall>r \<in> set rs. \<forall>f \<in> set fs.
        (\<forall>i \<in> set (ingredients_r r). foodMatches lower i f) \<longrightarrow>
        r \<in> set (getAvailableRecipes lower rs fs)"
    unfolding getAvailableRecipes_filter by auto
qed

text \<open>
  Whole milk and a pineapple in stock. The recipe that asks for milk twice and the one
  that asks for the pineapple in small letters are available; the one that asks for
  butter and the one that asks for five litres of milk are not.
\<close>

theorem availableRecipes_exact_witness:
  "getAvailableRecipes latin1Lower [milkTwice, butterToast, pineappleJuice, milkFeast]
     [wholeMilk, pineapple] = [milkTwice, pineappleJuice]"
proof -
  have "getAvailableRecipes latin1Lower [milkTwice, butterToast, pineappleJuice, milkFeast]
      [wholeMilk, pineapple] =
    filter (\<lambda>r. \<forall>i \<in> set (ingredients_r r). \<exists>f \<in> set [wholeMilk, pineapple].
        foodMatches latin1Lower i f) [milkTwice, butterToast, pineappleJuice, milkFeast]"
    using conjunct1 [OF availableRecipes_exact [of latin1Lower
          "[milkTwice, butterToast, pineappleJuice, milkFeast]" "[wholeMilk, pineapple]"]]
    by (simp only: foodMatches_iff)
  also have "\<dots> = [milkTwice, pineappleJuice]"
    by (simp add: milkTwice_def butterToast_def pineappleJuice_def milkFeast_def
        sample_foodMatches)
  finally show ?thesis .
qed

text \<open>
  C10. A recipe of the collection that has no ingredients is among the available recipes,
  whatever the foods are.
\<close>

theorem no_ingredients_available:
  "ingredients_r r = [] \<Longrightarrow> r \<in> set rs \<Longrightarrow> r \<in> set (getAvailableRecipes lower rs fs)"
  by (simp add: getAvailableRecipes_def)

theorem no_ingredients_available_witness:
  "plainToast \<in> set (getAvailableRecipes latin1Lower [milkTwice, plainToast] [])"
proof -
  have "ingredients_r plainToast = []" by (simp add: plainToast_def)
  moreover have "plainToast \<in> set [milkTwice, plainToast]" by simp
  ultimately show ?thesis by (rule no_ingredients_available)
qed

lemma getDaysUntilExpiry_valid:
  "parseDate expiryDate = Some expiry \<Longrightarrow>
   getDaysUntilExpiry parseDate now expiryDate =
     Num (of_int \<lceil>(of_int expiry - of_int now) / (86400000::real)\<rceil>)"
  by (simp add: getDaysUntilExpiry_def getTime_def)

lemma getDaysUntilExpiry_invalid:
  "parseDate expiryDate = None \<Longrightarrow> getDaysUntilExpiry parseDate now expiryDate = NaN"
  by (simp add: getDaysUntilExpiry_def getTime_def)

lemma js_le_iff: "js_le x y \<longleftrightarrow> (\<exists>a b. x = Num a \<and> y = Num b \<and> a \<le> b)"
  by (cases x; cases y) auto

lemma js_lt_iff: "js_lt x y \<longleftrightarrow> (\<exists>a b. x = Num a \<and> y = Num b \<and> a < b)"
  by (cases x; cases y) auto

lemma expiring_pred:
  "(js_le x (Num w) \<and> js_ge x (Num 0)) \<longleftrightarrow> (\<exists>d. x = Num d \<and> 0 \<le> d \<and> d \<le> w)"
  by (cases x) auto

lemma expired_pred: "js_lt x (Num 0) \<longleftrightarrow> (\<exists>d. x = Num d \<and> d < 0)"
  by (cases x) auto

lemma not_both: "\<not> (js_ge x (Num 0) \<and> js_lt x (Num 0))"
  by (cases x) auto

text \<open>
  C2. With one clock reading for the whole view, the foods expiring soon are exactly the
  foods, in their order, whose days until expiry are a number between 0 and the window
  (3 when no window is passed), the expired foods are exactly those whose days until
  expiry are a negative number, and no food is in both.
\<close>

theorem expiry_buckets:
  "getExpiringFoods parseDate now fs (Some (Num windowDays)) =
     filter (\<lambda>f. \<exists>d. getDaysUntilExpiry parseDate now (expiryDate_f f) = Num d \<and>
                      0 \<le> d \<and> d \<le> windowDays) fs
   \<and> getExpiringFoods parseDate now fs None = getExpiringFoods parseDate now fs (Some (Num 3))
   \<and> getExpiredFoods parseDate now fs =
     filter (\<lambda>f. \<exists>d. getDaysUntilExpiry parseDate now (expiryDate_f f) = Num d \<and> d < 0) fs
   \<and> set (getExpiringFoods parseDate now fs daysArg) \<inter> set (getExpiredFoods parseDate now fs) = {}"
proof (intro conjI)
  show "getExpiringFoods parseDate now fs (Some (Num windowDays)) =
     filter (\<lambda>f. \<exists>d. getDaysUntilExpiry parseDate now (expiryDate_f f) = Num d \<and>
                      0 \<le> d \<and> d \<le> windowDays) fs"
    by (simp add: getExpiringFoods_def expiring_pred)
  show "getExpiringFoods parseDate now fs None = getExpiringFoods parseDate now fs (Some (Num 3))"
    by (simp add: getExpiringFoods_def)
  show "getExpiredFoods parseDate now fs =
     filter (\<lambda>f. \<exists>d. getDaysUntilExpiry parseDate now (expiryDate_f f) = Num d \<and> d < 0) fs"
    by (simp add: getExpiredFoods_def expired_pred)
  show "set (getExpiringFoods parseDate now fs daysArg) \<inter> set (getExpiredFoods parseDate now fs) = {}"
    using not_both by (auto simp add: getExpiringFoods_def getExpiredFoods_def Let_def)
qed

text \<open>
  C8. For an expiry date that the parser reads, the days until expiry are the ceiling of
  the difference between the expiry time and the clock reading, in days of 86400000
  milliseconds; a clock reading one day later gives exactly one day less, so strictly less.
\<close>

theorem daysUntilExpiry_ceiling_decreasing:
  assumes "parseDate expiryDate = Some expiry"
  shows "getDaysUntilExpiry parseDate now expiryDate =
           Num (of_int \<lceil>(of_int expiry - of_int now) / (86400000::real)\<rceil>)
       \<and> getDaysUntilExpiry parseDate (now + 86400000) expiryDate =
           Num (of_int \<lceil>(of_int expiry - of_int now) / (86400000::real)\<rceil> - 1)
       \<and> js_lt (getDaysUntilExpiry parseDate (now + 86400000) expiryDate)
               (getDaysUntilExpiry parseDate now expiryDate)"
proof -
  let ?x = "(of_int expiry - of_int now) / (86400000::real)"
  have shift: "(of_int expiry - of_int (now + 86400000)) / (86400000::real) = ?x - 1"
    by (simp add: field_simps)
  have "getDaysUntilExpiry parseDate (now + 86400000) expiryDate =
      Num (of_int \<lceil>(of_int expiry - of_int (now + 86400000)) / (86400000::real)\<rceil>)"
    using assms by (rule getDaysUntilExpiry_valid)
  also have "\<dots> = Num (of_int \<lceil>?x - 1\<rceil>)"
    by (simp only: shift)
  also have "\<dots> = Num (of_int \<lceil>?x\<rceil> - 1)"
    by simp
  finally have later: "getDaysUntilExpiry parseDate (now + 86400000) expiryDate =
      Num (of_int \<lceil>?x\<rceil> - 1)" .
  have today: "getDaysUntilExpiry parseDate now expiryDate = Num (of_int \<lceil>?x\<rceil>)"
    using assms by (rule getDaysUntilExpiry_valid)
  show ?thesis
    by (simp only: today later js_lt.simps) simp
qed

theorem daysUntilExpiry_ceiling_decreasing_witness:
  "sampleParse (str ''2025-01-10'') = Some 1736467200000
   \<and> getDaysUntilExpiry sampleParse sampleNow (str ''2025-01-10'') = Num 2
   \<and> getDaysUntilExpiry sampleParse (sampleNow + 86400000) (str ''2025-01-10'') = Num 1"
proof -
  have p: "sampleParse (str ''2025-01-10'') = Some 1736467200000" by (simp add: sampleParse_def str_eq_iff)
  have c: "\<lceil>(of_int 1736467200000 - of_int 1736346600000) / (86400000::real)\<rceil> = 2"
    by (simp add: ceiling_eq_iff)
  show ?thesis
    using daysUntilExpiry_ceiling_decreasing
      [of sampleParse "str ''2025-01-10''" 1736467200000 sampleNow] p c
    by (simp add: sampleNow_def)
qed

text \<open>A food that expired the day before: minus one day.\<close>

lemma getDaysUntilExpiry_yesterday: "getDaysUntilExpiry sampleParse sampleNow (str ''2025-01-07'') = Num (-1)"
proof -
  have p: "sampleParse (str ''2025-01-07'') = Some 1736208000000" by (simp add: sampleParse_def str_eq_iff)
  have c: "\<lceil>(of_int 1736208000000 - of_int 1736346600000) / (86400000::real)\<rceil> = -1"
    by (simp add: ceiling_eq_iff)
  show ?thesis
    using getDaysUntilExpiry_valid [of sampleParse "str ''2025-01-07''" 1736208000000 sampleNow] p c
    by (simp add: sampleNow_def)
qed

text \<open>
  The scenarios of the specification: whole milk that expires in two days is expiring soon
  and not expired; milk that expired yesterday is expired and not expiring soon.
\<close>

lemma getDaysUntilExpiry_in_two_days:
  "getDaysUntilExpiry sampleParse sampleNow (str ''2025-01-10'') = Num 2"
proof -
  have p: "sampleParse (str ''2025-01-10'') = Some 1736467200000" by (simp add: sampleParse_def str_eq_iff)
  have c: "\<lceil>(of_int 1736467200000 - of_int 1736346600000) / (86400000::real)\<rceil> = 2"
    by (simp add: ceiling_eq_iff)
  show ?thesis
    using getDaysUntilExpiry_valid [of sampleParse "str ''2025-01-10''" 1736467200000 sampleNow] p c
    by (simp add: sampleNow_def)
qed

lemma expiry_scenarios:
  "getExpiringFoods sampleParse sampleNow [wholeMilk, semiMilk] None = [wholeMilk]"
  "getExpiredFoods sampleParse sampleNow [wholeMilk, semiMilk] = [semiMilk]"
  by (simp_all add: getExpiringFoods_def getExpiredFoods_def wholeMilk_def semiMilk_def
      getDaysUntilExpiry_in_two_days getDaysUntilExpiry_yesterday)

section \<open>Properties of the record lifecycle\<close>

lemma map_replace_absent:
  "c \<notin> key ` set xs \<Longrightarrow> map (\<lambda>x. if key x = c then u else x) xs = xs"
  by (induction xs) auto

lemma map_replace_distinct:
  "distinct (map key xs) \<Longrightarrow> i < length xs \<Longrightarrow>
   map (\<lambda>x. if key x = key (xs ! i) then u else x) xs = xs[i := u]"
proof (induction xs arbitrary: i)
  case Nil
  then show ?case by simp
next
  case (Cons x xs)
  show ?case
  proof (cases i)
    case 0
    have "key x \<notin> key ` set xs" using Cons.prems(1) by simp
    then have "map (\<lambda>y. if key y = key x then u else y) xs = xs"
      by (rule map_replace_absent)
    with 0 show ?thesis by simp
  next
    case (Suc n)
    then have n: "n < length xs" using Cons.prems(2) by simp
    then have "key (xs ! n) \<in> key ` set xs" by simp
    then have "key x \<noteq> key (xs ! n)" using Cons.prems(1) by auto
    moreover have "map (\<lambda>y. if key y = key (xs ! n) then u else y) xs = xs[n := u]"
      using Cons.IH [of n] Cons.prems(1) n by simp
    ultimately show ?thesis using Suc by simp
  qed
qed

lemma updateFood_Some:
  "editingFood s = Some e \<Longrightarrow>
   updateFood s d = Inr (s\<lparr>foods := map (\<lambda>food. if id_f food = id_f e
       then \<lparr>name_f = name_f d, category_f = category_f d, quantity_f = quantity_f d,
             unit_f = unit_f d, expiryDate_f = expiryDate_f d, notes_f = notes_f d,
             id_f = id_f e, dateAdded_f = dateAdded_f e\<rparr> else food) (foods s),
     editingFood := None\<rparr>)"
  by (simp add: updateFood_def)

lemma updateRecipe_Some:
  "editingRecipe s = Some e \<Longrightarrow>
   updateRecipe s d = Inr (s\<lparr>recipes := map (\<lambda>recipe. if id_r recipe = id_r e
       then \<lparr>name_r = name_r d, description_r = description_r d,
             instructions_r = instructions_r d, cookingTime_r = cookingTime_r d,
             servings_r = servings_r d, ingredients_r = ingredients_r d,
             id_r = id_r e, dateCreated_r = dateCreated_r e\<rparr> else recipe) (recipes s),
     editingRecipe := None\<rparr>)"
  by (simp add: updateRecipe_def)


lemma truncate_updatedFood:
  "FoodData.truncate \<lparr>name_f = name_f d, category_f = category_f d, quantity_f = quantity_f d,
     unit_f = unit_f d, expiryDate_f = expiryDate_f d, notes_f = notes_f d,
     id_f = x, dateAdded_f = y\<rparr> = (d::FoodData)"
  by (simp add: FoodData.truncate_def)

lemma truncate_updatedRecipe:
  "RecipeData.truncate \<lparr>name_r = name_r d, description_r = description_r d,
     instructions_r = instructions_r d, cookingTime_r = cookingTime_r d,
     servings_r = servings_r d, ingredients_r = ingredients_r d,
     id_r = x, dateCreated_r = y\<rparr> = (d::RecipeData)"
  by (simp add: RecipeData.truncate_def)

lemma updateFood_in_place:
  assumes i: "i < length (foods s)" and e: "editingFood s = Some (foods s ! i)"
  shows "\<exists>s'. updateFood s foodData = Inr s' \<and>
           length (foods s') = length (foods s) \<and> recipes s' = recipes s \<and>
           editingFood s' = None \<and>
           FoodData.truncate (foods s' ! i) = foodData \<and>
           id_f (foods s' ! i) = id_f (foods s ! i) \<and>
           dateAdded_f (foods s' ! i) = dateAdded_f (foods s ! i) \<and>
           (\<forall>k < length (foods s). foods s' ! k =
                (if id_f (foods s ! k) = id_f (foods s ! i) then foods s' ! i else foods s ! k)) \<and>
           (distinct (map id_f (foods s)) \<longrightarrow> foods s' = (foods s)[i := foods s' ! i])"
proof -
  define u where "u = \<lparr>name_f = name_f foodData, category_f = category_f foodData,
     quantity_f = quantity_f foodData, unit_f = unit_f foodData,
     expiryDate_f = expiryDate_f foodData, notes_f = notes_f foodData,
     id_f = id_f (foods s ! i), dateAdded_f = dateAdded_f (foods s ! i)\<rparr>"
  define fs where "fs = map (\<lambda>food. if id_f food = id_f (foods s ! i) then u else food) (foods s)"
  define s' where "s' = s\<lparr>foods := fs, editingFood := None\<rparr>"
  have r: "updateFood s foodData = Inr s'"
    unfolding s'_def fs_def u_def using e by (rule updateFood_Some)
  have at_i: "fs ! i = u" using i by (simp add: fs_def)
  have tr: "FoodData.truncate u = foodData"
    unfolding u_def by (rule truncate_updatedFood)
  have idu: "id_f u = id_f (foods s ! i)" "dateAdded_f u = dateAdded_f (foods s ! i)"
    by (simp_all add: u_def)
  have every: "\<forall>k < length (foods s). fs ! k =
      (if id_f (foods s ! k) = id_f (foods s ! i) then u else foods s ! k)"
    by (simp add: fs_def)
  have dist: "distinct (map id_f (foods s)) \<longrightarrow> fs = (foods s)[i := u]"
    unfolding fs_def using map_replace_distinct [of id_f "foods s" i u] i by blast
  have len: "length fs = length (foods s)" by (simp add: fs_def)
  have sel: "foods s' = fs" "recipes s' = recipes s" "editingFood s' = None"
    by (simp_all add: s'_def)
  show ?thesis
    apply (rule exI [of _ s'])
    apply (simp only: sel at_i)
    using r tr idu every dist len at_i by simp
qed

lemma updateRecipe_in_place:
  assumes j: "j < length (recipes s)" and e: "editingRecipe s = Some (recipes s ! j)"
  shows "\<exists>s'. updateRecipe s recipeData = Inr s' \<and>
           length (recipes s') = length (recipes s) \<and> foods s' = foods s \<and>
           editingRecipe s' = None \<and>
           RecipeData.truncate (recipes s' ! j) = recipeData \<and>
           id_r (recipes s' ! j) = id_r (recipes s ! j) \<and>
           dateCreated_r (recipes s' ! j) = dateCreated_r (recipes s ! j) \<and>
           (\<forall>k < length (recipes s). recipes s' ! k =
                (if id_r (recipes s ! k) = id_r (recipes s ! j) then recipes s' ! j
                 else recipes s ! k)) \<and>
           (distinct (map id_r (recipes s)) \<longrightarrow>
                recipes s' = (recipes s)[j := recipes s' ! j])"
proof -
  define u where "u = \<lparr>name_r = name_r recipeData, description_r = description_r recipeData,
     instructions_r = instructions_r recipeData, cookingTime_r = cookingTime_r recipeData,
     servings_r = servings_r recipeData, ingredients_r = ingredients_r recipeData,
     id_r = id_r (recipes s ! j), dateCreated_r = dateCreated_r (recipes s ! j)\<rparr>"
  define rs where
    "rs = map (\<lambda>recipe. if id_r recipe = id_r (recipes s ! j) then u else recipe) (recipes s)"
  define s' where "s' = s\<lparr>recipes := rs, editingRecipe := None\<rparr>"
  have r: "updateRecipe s recipeData = Inr s'"
    unfolding s'_def rs_def u_def using e by (rule updateRecipe_Some)
  have at_j: "rs ! j = u" using j by (simp add: rs_def)
  have tr: "RecipeData.truncate u = recipeData"
    unfolding u_def by (rule truncate_updatedRecipe)
  have idu: "id_r u = id_r (recipes s ! j)" "dateCreated_r u = dateCreated_r (recipes s ! j)"
    by (simp_all add: u_def)
  have every: "\<forall>k < length (recipes s). rs ! k =
      (if id_r (recipes s ! k) = id_r (recipes s ! j) then u else recipes s ! k)"
    by (simp add: rs_def)
  have dist: "distinct (map id_r (recipes s)) \<longrightarrow> rs = (recipes s)[j := u]"
    unfolding rs_def using map_replace_distinct [of id_r "recipes s" j u] j by blast
  have len: "length rs = length (recipes s)" by (simp add: rs_def)
  have sel: "recipes s' = rs" "foods s' = foods s" "editingRecipe s' = None"
    by (simp_all add: s'_def)
  show ?thesis
    apply (rule exI [of _ s'])
    apply (simp only: sel at_j)
    using r tr idu every dist len at_j by simp
qed

text \<open>
  C4, as the code has it. When the record being edited is the record at a position of
  its collection, the update succeeds and clears the selection; the collection keeps its
  length; the record at that position takes every field of the input and keeps its
  identity and its creation timestamp; every record with the same identity becomes that
  same record, and every record with another identity is unchanged; with unique
  identities only that position changes. The other collection is untouched. The part on
  foods asks nothing of the recipes, and the part on recipes nothing of the foods.
\<close>

theorem update_by_identity:
  "(i < length (foods s) \<and> editingFood s = Some (foods s ! i) \<longrightarrow>
      (\<exists>s'. updateFood s foodData = Inr s' \<and>
           length (foods s') = length (foods s) \<and> recipes s' = recipes s \<and>
           editingFood s' = None \<and>
           FoodData.truncate (foods s' ! i) = foodData \<and>
           id_f (foods s' ! i) = id_f (foods s ! i) \<and>
           dateAdded_f (foods s' ! i) = dateAdded_f (foods s ! i) \<and>
           (\<forall>k < length (foods s). foods s' ! k =
                (if id_f (foods s ! k) = id_f (foods s ! i) then foods s' ! i else foods s ! k)) \<and>
           (distinct (map id_f (foods s)) \<longrightarrow> foods s' = (foods s)[i := foods s' ! i])))
   \<and> (j < length (recipes s) \<and> editingRecipe s = Some (recipes s ! j) \<longrightarrow>
      (\<exists>s'. updateRecipe s recipeData = Inr s' \<and>
           length (recipes s') = length (recipes s) \<and> foods s' = foods s \<and>
           editingRecipe s' = None \<and>
           RecipeData.truncate (recipes s' ! j) = recipeData \<and>
           id_r (recipes s' ! j) = id_r (recipes s ! j) \<and>
           dateCreated_r (recipes s' ! j) = dateCreated_r (recipes s ! j) \<and>
           (\<forall>k < length (recipes s). recipes s' ! k =
                (if id_r (recipes s ! k) = id_r (recipes s ! j) then recipes s' ! j
                 else recipes s ! k)) \<and>
           (distinct (map id_r (recipes s)) \<longrightarrow>
                recipes s' = (recipes s)[j := recipes s' ! j])))"
proof (intro conjI impI)
  assume "i < length (foods s) \<and> editingFood s = Some (foods s ! i)"
  then have "i < length (foods s)" "editingFood s = Some (foods s ! i)" by simp_all
  then show "\<exists>s'. updateFood s foodData = Inr s' \<and>
           length (foods s') = length (foods s) \<and> recipes s' = recipes s \<and>
           editingFood s' = None \<and>
           FoodData.truncate (foods s' ! i) = foodData \<and>
           id_f (foods s' ! i) = id_f (foods s ! i) \<and>
           dateAdded_f (foods s' ! i) = dateAdded_f (foods s ! i) \<and>
           (\<forall>k < length (foods s). foods s' ! k =
                (if id_f (foods s ! k) = id_f (foods s ! i) then foods s' ! i else foods s ! k)) \<and>
           (distinct (map id_f (foods s)) \<longrightarrow> foods s' = (foods s)[i := foods s' ! i])"
    by (rule updateFood_in_place)
next
  assume "j < length (recipes s) \<and> editingRecipe s = Some (recipes s ! j)"
  then have "j < length (recipes s)" "editingRecipe s = Some (recipes s ! j)" by simp_all
  then show "\<exists>s'. updateRecipe s recipeData = Inr s' \<and>
           length (recipes s') = length (recipes s) \<and> foods s' = foods s \<and>
           editingRecipe s' = None \<and>
           RecipeData.truncate (recipes s' ! j) = recipeData \<and>
           id_r (recipes s' ! j) = id_r (recipes s ! j) \<and>
           dateCreated_r (recipes s' ! j) = dateCreated_r (recipes s ! j) \<and>
           (\<forall>k < length (recipes s). recipes s' ! k =
                (if id_r (recipes s ! k) = id_r (recipes s ! j) then recipes s' ! j
                 else recipes s ! k)) \<and>
           (distinct (map id_r (recipes s)) \<longrightarrow>
                recipes s' = (recipes s)[j := recipes s' ! j])"
    by (rule updateRecipe_in_place)
qed

lemma fridge_sel: "foods fridge = [wholeMilk, semiMilk]" "recipes fridge = [milkTwice, plainToast]"
  by (simp_all add: fridge_def)

lemma sample_ids:
  "id_f wholeMilk = 1736000000000.25" "id_f semiMilk = 1736000000100.5"
  "id_r milkTwice = 1736000000500" "id_r plainToast = 1736000000900"
  "id_f twinMilk = 1736000000000.25"
  by (simp_all add: wholeMilk_def semiMilk_def milkTwice_def plainToast_def twinMilk_def)

lemma fridge_ids: "distinct (map id_f (foods fridge))" "distinct (map id_r (recipes fridge))"
  by (simp_all add: fridge_sel sample_ids)

text \<open>
  A state in which only a food is edited, and one in which only a recipe is edited: the
  second record of the collection takes the input and keeps identity and timestamp, the
  first is as it was.
\<close>

theorem update_by_identity_witness:
  "(\<exists>s'. updateFood (fridge\<lparr>editingRecipe := None\<rparr>) editedMilk = Inr s' \<and>
      foods s' = [wholeMilk, foods s' ! 1] \<and>
      FoodData.truncate (foods s' ! 1) = editedMilk \<and>
      id_f (foods s' ! 1) = id_f semiMilk \<and> dateAdded_f (foods s' ! 1) = dateAdded_f semiMilk)
   \<and> (\<exists>s'. updateRecipe (fridge\<lparr>editingFood := None\<rparr>) editedToast = Inr s' \<and>
      recipes s' = [milkTwice, recipes s' ! 1] \<and>
      RecipeData.truncate (recipes s' ! 1) = editedToast \<and>
      id_r (recipes s' ! 1) = id_r plainToast \<and>
      dateCreated_r (recipes s' ! 1) = dateCreated_r plainToast)"
proof
  define s where "s = fridge\<lparr>editingRecipe := None\<rparr>"
  have h: "1 < length (foods s) \<and> editingFood s = Some (foods s ! 1)"
    by (simp add: s_def fridge_def)
  have sel: "foods s = [wholeMilk, semiMilk]" "distinct (map id_f (foods s))"
    using fridge_ids by (simp_all add: s_def fridge_sel)
  have "\<exists>s'. updateFood s editedMilk = Inr s' \<and>
      foods s' = [wholeMilk, foods s' ! 1] \<and>
      FoodData.truncate (foods s' ! 1) = editedMilk \<and>
      id_f (foods s' ! 1) = id_f semiMilk \<and> dateAdded_f (foods s' ! 1) = dateAdded_f semiMilk"
    using mp [OF conjunct1 [OF update_by_identity [of 1 s editedMilk 0 editedToast]] h] sel
    by (simp add: sel, blast)
  then show "\<exists>s'. updateFood (fridge\<lparr>editingRecipe := None\<rparr>) editedMilk = Inr s' \<and>
      foods s' = [wholeMilk, foods s' ! 1] \<and>
      FoodData.truncate (foods s' ! 1) = editedMilk \<and>
      id_f (foods s' ! 1) = id_f semiMilk \<and> dateAdded_f (foods s' ! 1) = dateAdded_f semiMilk"
    unfolding s_def .
next
  define s where "s = fridge\<lparr>editingFood := None\<rparr>"
  have h: "1 < length (recipes s) \<and> editingRecipe s = Some (recipes s ! 1)"
    by (simp add: s_def fridge_def)
  have sel: "recipes s = [milkTwice, plainToast]" "distinct (map id_r (recipes s))"
    using fridge_ids by (simp_all add: s_def fridge_sel)
  have "\<exists>s'. updateRecipe s editedToast = Inr s' \<and>
      recipes s' = [milkTwice, recipes s' ! 1] \<and>
      RecipeData.truncate (recipes s' ! 1) = editedToast \<and>
      id_r (recipes s' ! 1) = id_r plainToast \<and>
      dateCreated_r (recipes s' ! 1) = dateCreated_r plainToast"
    using mp [OF conjunct2 [OF update_by_identity [of 0 s editedMilk 1 editedToast]] h] sel
    by (simp add: sel, blast)
  then show "\<exists>s'. updateRecipe (fridge\<lparr>editingFood := None\<rparr>) editedToast = Inr s' \<and>
      recipes s' = [milkTwice, recipes s' ! 1] \<and>
      RecipeData.truncate (recipes s' ! 1) = editedToast \<and>
      id_r (recipes s' ! 1) = id_r plainToast \<and>
      dateCreated_r (recipes s' ! 1) = dateCreated_r plainToast"
    unfolding s_def .
qed

text \<open>
  Two foods with one identity, the first being edited: the update also rewrites the
  second, another record, and its creation timestamp with it.
\<close>

theorem update_duplicate_counterexample:
  "editingFood twinFridge = Some (foods twinFridge ! 0)
   \<and> foods twinFridge ! 1 = twinMilk
   \<and> \<not> isl (updateFood twinFridge editedMilk)
   \<and> foods (projr (updateFood twinFridge editedMilk)) ! 1 \<noteq> twinMilk
   \<and> dateAdded_f (foods (projr (updateFood twinFridge editedMilk)) ! 1) \<noteq> dateAdded_f twinMilk"
proof -
  have e: "editingFood twinFridge = Some wholeMilk" by (simp add: twinFridge_def)
  have f: "foods twinFridge = [wholeMilk, twinMilk]" by (simp add: twinFridge_def)
  have d: "dateAdded_f wholeMilk \<noteq> dateAdded_f twinMilk"
    by (simp add: wholeMilk_def twinMilk_def str_eq_iff)
  define u where "u = \<lparr>name_f = name_f editedMilk, category_f = category_f editedMilk,
     quantity_f = quantity_f editedMilk, unit_f = unit_f editedMilk,
     expiryDate_f = expiryDate_f editedMilk, notes_f = notes_f editedMilk,
     id_f = id_f wholeMilk, dateAdded_f = dateAdded_f wholeMilk\<rparr>"
  have r: "updateFood twinFridge editedMilk =
      Inr (twinFridge\<lparr>foods := map (\<lambda>food. if id_f food = id_f wholeMilk then u else food)
             (foods twinFridge), editingFood := None\<rparr>)"
    unfolding u_def using e by (rule updateFood_Some)
  have second: "foods (projr (updateFood twinFridge editedMilk)) ! 1 = u"
    unfolding r by (simp add: f sample_ids)
  have du: "dateAdded_f u \<noteq> dateAdded_f twinMilk" using d by (simp add: u_def)
  then have nu: "u \<noteq> twinMilk" by auto
  have c1: "editingFood twinFridge = Some (foods twinFridge ! 0)" by (simp add: e f)
  have c2: "foods twinFridge ! 1 = twinMilk" by (simp add: f)
  have c3: "\<not> isl (updateFood twinFridge editedMilk)" by (simp add: r)
  have c4: "foods (projr (updateFood twinFridge editedMilk)) ! 1 \<noteq> twinMilk"
    unfolding second by (fact nu)
  have c5: "dateAdded_f (foods (projr (updateFood twinFridge editedMilk)) ! 1) \<noteq>
      dateAdded_f twinMilk"
    unfolding second by (fact du)
  show ?thesis using c1 c2 c3 c4 c5 by blast
qed

text \<open>
  C5, as the code has it. When the record being edited has an identity that no record of
  the collection has, the update reports nothing: it returns normally, the collections
  are unchanged and only the editing selection is cleared. The part on foods asks
  nothing of the recipes, and the part on recipes nothing of the foods.
\<close>

theorem update_absent_silent:
  "(editingFood s = Some e \<and> id_f e \<notin> id_f ` set (foods s) \<longrightarrow>
      updateFood s foodData = Inr (s\<lparr>editingFood := None\<rparr>))
   \<and> (editingRecipe s = Some r \<and> id_r r \<notin> id_r ` set (recipes s) \<longrightarrow>
      updateRecipe s recipeData = Inr (s\<lparr>editingRecipe := None\<rparr>))"
proof (intro conjI impI)
  assume a: "editingFood s = Some e \<and> id_f e \<notin> id_f ` set (foods s)"
  then have "id_f e \<notin> id_f ` set (foods s)" by simp
  then show "updateFood s foodData = Inr (s\<lparr>editingFood := None\<rparr>)"
    using a by (simp add: updateFood_Some map_replace_absent)
next
  assume a: "editingRecipe s = Some r \<and> id_r r \<notin> id_r ` set (recipes s)"
  then have "id_r r \<notin> id_r ` set (recipes s)" by simp
  then show "updateRecipe s recipeData = Inr (s\<lparr>editingRecipe := None\<rparr>)"
    using a by (simp add: updateRecipe_Some map_replace_absent)
qed

lemma stale_ids:
  "id_f staleFood \<notin> id_f ` set [wholeMilk, semiMilk]"
  "id_r staleRecipe \<notin> id_r ` set [milkTwice, plainToast]"
  by (simp_all add: staleFood_def staleRecipe_def sample_ids)

text \<open>A stale food edit while no recipe is edited, and a stale recipe edit while no food is.\<close>

theorem update_absent_silent_witness:
  "updateFood staleFoodFridge editedMilk = Inr (staleFoodFridge\<lparr>editingFood := None\<rparr>)
   \<and> foods staleFoodFridge = [wholeMilk, semiMilk]
   \<and> updateRecipe staleRecipeFridge editedToast =
       Inr (staleRecipeFridge\<lparr>editingRecipe := None\<rparr>)
   \<and> recipes staleRecipeFridge = [milkTwice, plainToast]"
proof -
  have f: "foods staleFoodFridge = [wholeMilk, semiMilk]"
    and r: "recipes staleRecipeFridge = [milkTwice, plainToast]"
    by (simp_all add: staleFoodFridge_def staleRecipeFridge_def fridge_sel)
  have hf: "editingFood staleFoodFridge = Some staleFood \<and>
      id_f staleFood \<notin> id_f ` set (foods staleFoodFridge)"
    unfolding f using stale_ids(1) by (simp add: staleFoodFridge_def)
  have hr: "editingRecipe staleRecipeFridge = Some staleRecipe \<and>
      id_r staleRecipe \<notin> id_r ` set (recipes staleRecipeFridge)"
    unfolding r using stale_ids(2) by (simp add: staleRecipeFridge_def)
  have "updateFood staleFoodFridge editedMilk = Inr (staleFoodFridge\<lparr>editingFood := None\<rparr>)"
    using mp [OF conjunct1 [OF update_absent_silent
          [of staleFoodFridge staleFood editedMilk staleRecipe editedToast]] hf] .
  moreover have "updateRecipe staleRecipeFridge editedToast =
      Inr (staleRecipeFridge\<lparr>editingRecipe := None\<rparr>)"
    using mp [OF conjunct2 [OF update_absent_silent
          [of staleRecipeFridge staleFood editedMilk staleRecipe editedToast]] hr] .
  ultimately show ?thesis using f r by simp
qed

text \<open>The edited record is absent from the collection, and the update does not fail.\<close>

theorem update_absent_counterexample:
  "id_f staleFood \<notin> id_f ` set (foods staleFridge)
   \<and> editingFood staleFridge = Some staleFood
   \<and> \<not> isl (updateFood staleFridge editedMilk)
   \<and> id_r staleRecipe \<notin> id_r ` set (recipes staleFridge)
   \<and> editingRecipe staleFridge = Some staleRecipe
   \<and> \<not> isl (updateRecipe staleFridge editedToast)"
proof -
  have s: "editingFood staleFridge = Some staleFood" "editingRecipe staleFridge = Some staleRecipe"
    "foods staleFridge = [wholeMilk, semiMilk]" "recipes staleFridge = [milkTwice, plainToast]"
    by (simp_all add: staleFridge_def fridge_sel)
  show ?thesis
    using stale_ids by (simp add: s updateFood_Some [OF s(1)] updateRecipe_Some [OF s(2)])
qed

lemma filter_remove_first:
  "distinct (map key xs) \<Longrightarrow>
   filter (\<lambda>x. key x \<noteq> c) xs = remove_first_matching (\<lambda>x. key x = c) xs"
proof (induction xs)
  case Nil
  then show ?case by simp
next
  case (Cons x xs)
  show ?case
  proof (cases "key x = c")
    case True
    then have "c \<notin> key ` set xs" using Cons.prems by auto
    then have "filter (\<lambda>x. key x \<noteq> c) xs = xs" by (induction xs) auto
    with True show ?thesis by simp
  next
    case False
    then show ?thesis using Cons by simp
  qed
qed

lemma filter_absent: "c \<notin> key ` set xs \<Longrightarrow> filter (\<lambda>x. key x \<noteq> c) xs = xs"
  by (induction xs) auto

lemma length_remove_first:
  "\<exists>x \<in> set xs. P x \<Longrightarrow> Suc (length (remove_first_matching P xs)) = length xs"
  by (induction xs) auto

text \<open>
  C6, as the code has it. A delete keeps exactly the records with another identity, in
  their relative order, so it removes every record with the identity. With unique
  identities that is the removal of the first record with the identity, and the
  collection loses exactly one record when the identity is present. A delete of an
  identity that no record has returns the state as it was. The other collection is
  untouched. This holds for foods and for recipes.
\<close>

theorem delete_by_identity:
  "foods (deleteFood s x) = filter (\<lambda>food. id_f food \<noteq> x) (foods s)
   \<and> (distinct (map id_f (foods s)) \<longrightarrow>
      foods (deleteFood s x) = remove_first_matching (\<lambda>food. id_f food = x) (foods s))
   \<and> (distinct (map id_f (foods s)) \<and> x \<in> id_f ` set (foods s) \<longrightarrow>
      Suc (length (foods (deleteFood s x))) = length (foods s))
   \<and> subseq (foods (deleteFood s x)) (foods s)
   \<and> set (foods (deleteFood s x)) = {food \<in> set (foods s). id_f food \<noteq> x}
   \<and> (x \<notin> id_f ` set (foods s) \<longrightarrow> deleteFood s x = s)
   \<and> recipes (deleteFood s x) = recipes s
   \<and> recipes (deleteRecipe s x) = filter (\<lambda>recipe. id_r recipe \<noteq> x) (recipes s)
   \<and> (distinct (map id_r (recipes s)) \<longrightarrow>
      recipes (deleteRecipe s x) = remove_first_matching (\<lambda>recipe. id_r recipe = x) (recipes s))
   \<and> (distinct (map id_r (recipes s)) \<and> x \<in> id_r ` set (recipes s) \<longrightarrow>
      Suc (length (recipes (deleteRecipe s x))) = length (recipes s))
   \<and> subseq (recipes (deleteRecipe s x)) (recipes s)
   \<and> set (recipes (deleteRecipe s x)) = {recipe \<in> set (recipes s). id_r recipe \<noteq> x}
   \<and> (x \<notin> id_r ` set (recipes s) \<longrightarrow> deleteRecipe s x = s)
   \<and> foods (deleteRecipe s x) = foods s"
proof (intro conjI impI)
  show "foods (deleteFood s x) = filter (\<lambda>food. id_f food \<noteq> x) (foods s)"
    by (simp add: deleteFood_def)
  show "foods (deleteFood s x) = remove_first_matching (\<lambda>food. id_f food = x) (foods s)"
    if "distinct (map id_f (foods s))"
    using filter_remove_first [OF that] by (simp add: deleteFood_def)
  show "Suc (length (foods (deleteFood s x))) = length (foods s)"
    if "distinct (map id_f (foods s)) \<and> x \<in> id_f ` set (foods s)"
  proof -
    have "\<exists>f \<in> set (foods s). id_f f = x" using that by auto
    then have "Suc (length (remove_first_matching (\<lambda>food. id_f food = x) (foods s))) =
        length (foods s)" by (rule length_remove_first)
    then show ?thesis using filter_remove_first [of id_f "foods s" x] that
      by (simp add: deleteFood_def)
  qed
  show "subseq (foods (deleteFood s x)) (foods s)" by (simp add: deleteFood_def)
  show "set (foods (deleteFood s x)) = {food \<in> set (foods s). id_f food \<noteq> x}"
    by (simp add: deleteFood_def)
  show "deleteFood s x = s" if "x \<notin> id_f ` set (foods s)"
    using filter_absent [OF that] by (simp add: deleteFood_def)
  show "recipes (deleteFood s x) = recipes s" by (simp add: deleteFood_def)
  show "recipes (deleteRecipe s x) = filter (\<lambda>recipe. id_r recipe \<noteq> x) (recipes s)"
    by (simp add: deleteRecipe_def)
  show "recipes (deleteRecipe s x) = remove_first_matching (\<lambda>recipe. id_r recipe = x) (recipes s)"
    if "distinct (map id_r (recipes s))"
    using filter_remove_first [OF that] by (simp add: deleteRecipe_def)
  show "Suc (length (recipes (deleteRecipe s x))) = length (recipes s)"
    if "distinct (map id_r (recipes s)) \<and> x \<in> id_r ` set (recipes s)"
  proof -
    have "\<exists>r \<in> set (recipes s). id_r r = x" using that by auto
    then have "Suc (length (remove_first_matching (\<lambda>recipe. id_r recipe = x) (recipes s))) =
        length (recipes s)" by (rule length_remove_first)
    then show ?thesis using filter_remove_first [of id_r "recipes s" x] that
      by (simp add: deleteRecipe_def)
  qed
  show "subseq (recipes (deleteRecipe s x)) (recipes s)" by (simp add: deleteRecipe_def)
  show "set (recipes (deleteRecipe s x)) = {recipe \<in> set (recipes s). id_r recipe \<noteq> x}"
    by (simp add: deleteRecipe_def)
  show "deleteRecipe s x = s" if "x \<notin> id_r ` set (recipes s)"
    using filter_absent [OF that] by (simp add: deleteRecipe_def)
  show "foods (deleteRecipe s x) = foods s" by (simp add: deleteRecipe_def)
qed

theorem delete_by_identity_witness:
  "foods (deleteFood fridge 1736000000100.5) = [wholeMilk]
   \<and> deleteFood fridge 42 = fridge
   \<and> recipes (deleteRecipe fridge 1736000000900) = [milkTwice]
   \<and> deleteRecipe fridge 42 = fridge"
  using delete_by_identity [of fridge "1736000000100.5"]
        delete_by_identity [of fridge 42]
        delete_by_identity [of fridge 1736000000900] fridge_ids
  by (simp add: fridge_sel sample_ids)

text \<open>
  Two foods with one identity: the delete of that identity removes both, not only the
  first, and the collection is left empty.
\<close>

theorem delete_duplicate_counterexample:
  "foods twinFridge = [wholeMilk, twinMilk]
   \<and> id_f twinMilk = id_f wholeMilk
   \<and> foods (deleteFood twinFridge (id_f wholeMilk)) = []"
  by (simp add: deleteFood_def twinFridge_def sample_ids)

lemma addFood_foods:
  "foods (addFood s now rnd stamp d) = foods s @
     [\<lparr>name_f = name_f d, category_f = category_f d, quantity_f = quantity_f d,
       unit_f = unit_f d, expiryDate_f = expiryDate_f d, notes_f = notes_f d,
       id_f = js_add (of_int now) rnd, dateAdded_f = stamp\<rparr>]"
  by (simp add: addFood_def)

lemma addRecipe_recipes:
  "recipes (addRecipe s now stamp d) = recipes s @
     [\<lparr>name_r = name_r d, description_r = description_r d,
       instructions_r = instructions_r d, cookingTime_r = cookingTime_r d,
       servings_r = servings_r d, ingredients_r = ingredients_r d,
       id_r = of_int now, dateCreated_r = stamp\<rparr>]"
  by (simp add: addRecipe_def)

lemma addFood_id: "id_f (last (foods (addFood s now rnd stamp d))) = js_add (of_int now) rnd"
  by (simp add: addFood_foods)

lemma round_half_even_bounds: "\<lfloor>q\<rfloor> \<le> round_half_even q" "round_half_even q \<le> \<lfloor>q\<rfloor> + 1"
  by (simp_all add: round_half_even_def Let_def)

text \<open>
  The sum of a clock reading and a random number below one, rounded to a double, lies
  between the clock reading and the clock reading plus one, both included.
\<close>

lemma js_add_clock_random:
  assumes pos: "0 < now" and small: "now < 2 ^ 53" and r0: "0 \<le> rnd" and r1: "rnd < 1"
  shows "of_int now \<le> js_add (of_int now) rnd" and "js_add (of_int now) rnd \<le> of_int now + 1"
proof -
  define x where "x = real_of_int now + rnd"
  have x1: "1 \<le> x" using pos r0 by (simp add: x_def)
  have fx: "\<lfloor>x\<rfloor> = now"
  proof -
    have "\<lfloor>rnd\<rfloor> = 0" using r0 r1 by (simp add: floor_eq_iff)
    then show ?thesis by (simp add: x_def)
  qed
  define k where "k = bitlen now"
  have k53: "k \<le> 53" using small by (simp add: k_def bitlen_le_iff_power)
  define n where "n = nat (53 - k)"
  define m :: int where "m = 2 ^ n"
  have mpos: "0 < m" by (simp add: m_def)
  have u: "ulp x = 1 / real_of_int m"
  proof (cases "k = 53")
    case True
    then show ?thesis using x1 by (simp add: ulp_def binade_def fx k_def m_def n_def)
  next
    case False
    with k53 have "k < 53" by simp
    then show ?thesis using x1 by (simp add: ulp_def binade_def fx k_def m_def n_def)
  qed
  define q where "q = x * real_of_int m"
  have qlo: "real_of_int (now * m) \<le> q"
    using r0 mpos by (simp add: q_def x_def algebra_simps)
  have qhi: "q < real_of_int ((now + 1) * m)"
    using r1 mpos by (simp add: q_def x_def algebra_simps)
  have flo: "now * m \<le> \<lfloor>q\<rfloor>" using qlo by (simp add: le_floor_iff)
  have fhi: "\<lfloor>q\<rfloor> < (now + 1) * m" using qhi by (simp add: floor_less_iff)
  have rlo: "now * m \<le> round_half_even q" using flo round_half_even_bounds(1) [of q] by linarith
  have rhi: "round_half_even q \<le> (now + 1) * m"
    using fhi round_half_even_bounds(2) [of q] by linarith
  have val: "js_add (of_int now) rnd = real_of_int (round_half_even q) / real_of_int m"
    using x1 by (simp add: js_add_def fl_def x_def [symmetric] u q_def)
  have "real_of_int (now * m) \<le> real_of_int (round_half_even q)" using rlo by linarith
  then show "of_int now \<le> js_add (of_int now) rnd"
    unfolding val using mpos by (simp add: pos_le_divide_eq)
  have "real_of_int (round_half_even q) \<le> real_of_int ((now + 1) * m)" using rhi by linarith
  then show "js_add (of_int now) rnd \<le> of_int now + 1"
    unfolding val using mpos by (simp add: pos_divide_le_eq)
qed

lemma js_add_samples:
  "js_add 1736000000000 0.25 = 1736000000000.25"
  "js_add 1736000001000 0.25 = 1736000001000.25"
  "js_add 1736000001000 0.0001 = 1736000001000"
  "js_add 1736000000999 0.99999 = 1736000001000"
  by code_simp+

text \<open>
  C7, as the code has it. A new food is appended with the identity
  \<open>Date.now() + Math.random()\<close>, a double between the clock reading and the clock reading
  plus one, and a new recipe with the identity \<open>Date.now()\<close>; the collection is not
  looked at. When every identity of the collection is below the clock reading, the new
  identity is not in the collection, and unique identities stay unique. The part on
  foods asks nothing of the recipes, and the part on recipes nothing of the foods.
\<close>

theorem create_identity_fresh_after_clock:
  "butlast (foods (addFood s now rnd stamp foodData)) = foods s
   \<and> id_f (last (foods (addFood s now rnd stamp foodData))) = js_add (of_int now) rnd
   \<and> (0 < now \<and> now < 2 ^ 53 \<and> 0 \<le> rnd \<and> rnd < 1 \<longrightarrow>
        of_int now \<le> id_f (last (foods (addFood s now rnd stamp foodData))) \<and>
        id_f (last (foods (addFood s now rnd stamp foodData))) \<le> of_int now + 1)
   \<and> (0 < now \<and> now < 2 ^ 53 \<and> 0 \<le> rnd \<and> rnd < 1 \<and>
        (\<forall>f \<in> set (foods s). id_f f < of_int now) \<longrightarrow>
        id_f (last (foods (addFood s now rnd stamp foodData))) \<notin> id_f ` set (foods s) \<and>
        (distinct (map id_f (foods s)) \<longrightarrow>
           distinct (map id_f (foods (addFood s now rnd stamp foodData)))))
   \<and> butlast (recipes (addRecipe s now stamp recipeData)) = recipes s
   \<and> id_r (last (recipes (addRecipe s now stamp recipeData))) = of_int now
   \<and> ((\<forall>r \<in> set (recipes s). id_r r < of_int now) \<longrightarrow>
        id_r (last (recipes (addRecipe s now stamp recipeData))) \<notin> id_r ` set (recipes s) \<and>
        (distinct (map id_r (recipes s)) \<longrightarrow>
           distinct (map id_r (recipes (addRecipe s now stamp recipeData)))))"
proof (intro conjI impI)
  show "butlast (foods (addFood s now rnd stamp foodData)) = foods s"
    by (simp add: addFood_foods)
  show idf: "id_f (last (foods (addFood s now rnd stamp foodData))) = js_add (of_int now) rnd"
    by (simp add: addFood_foods)
  show "butlast (recipes (addRecipe s now stamp recipeData)) = recipes s"
    by (simp add: addRecipe_recipes)
  show idr: "id_r (last (recipes (addRecipe s now stamp recipeData))) = of_int now"
    by (simp add: addRecipe_recipes)
  {
    assume a: "0 < now \<and> now < 2 ^ 53 \<and> 0 \<le> rnd \<and> rnd < 1"
    then have b: "of_int now \<le> js_add (of_int now) rnd" "js_add (of_int now) rnd \<le> of_int now + 1"
      using js_add_clock_random [of now rnd] by simp_all
    show "of_int now \<le> id_f (last (foods (addFood s now rnd stamp foodData)))"
      unfolding idf by (fact b(1))
    show "id_f (last (foods (addFood s now rnd stamp foodData))) \<le> of_int now + 1"
      unfolding idf by (fact b(2))
  }
  {
    assume a: "0 < now \<and> now < 2 ^ 53 \<and> 0 \<le> rnd \<and> rnd < 1 \<and>
        (\<forall>f \<in> set (foods s). id_f f < of_int now)"
    then have lo: "of_int now \<le> js_add (of_int now) rnd"
      using js_add_clock_random(1) [of now rnd] by simp
    have fresh: "js_add (of_int now) rnd \<notin> id_f ` set (foods s)"
    proof
      assume "js_add (of_int now) rnd \<in> id_f ` set (foods s)"
      then obtain f where "f \<in> set (foods s)" "id_f f = js_add (of_int now) rnd" by auto
      then show False using a lo by fastforce
    qed
    show "id_f (last (foods (addFood s now rnd stamp foodData))) \<notin> id_f ` set (foods s)"
      unfolding idf by (fact fresh)
    show "distinct (map id_f (foods (addFood s now rnd stamp foodData)))"
      if "distinct (map id_f (foods s))"
      using that fresh by (simp add: addFood_foods)
  }
  {
    assume a: "\<forall>r \<in> set (recipes s). id_r r < of_int now"
    have fresh: "of_int now \<notin> id_r ` set (recipes s)"
    proof
      assume "of_int now \<in> id_r ` set (recipes s)"
      then obtain r where "r \<in> set (recipes s)" "id_r r = of_int now" by auto
      then show False using a by fastforce
    qed
    show "id_r (last (recipes (addRecipe s now stamp recipeData))) \<notin> id_r ` set (recipes s)"
      unfolding idr by (fact fresh)
    show "distinct (map id_r (recipes (addRecipe s now stamp recipeData)))"
      if "distinct (map id_r (recipes s))"
      using that fresh by (simp add: addRecipe_recipes)
  }
qed

text \<open>
  A food made one second after the foods of the fridge while no recipe is looked at, and a
  recipe made then while no food is.
\<close>

theorem create_identity_fresh_after_clock_witness:
  "id_f (last (foods (addFood (fridge\<lparr>recipes := []\<rparr>) 1736000001000 0.25
        (str ''2025-01-04T14:13:21.000Z'') editedMilk))) = 1736000001000.25
   \<and> distinct (map id_f (foods (addFood (fridge\<lparr>recipes := []\<rparr>) 1736000001000 0.25
        (str ''2025-01-04T14:13:21.000Z'') editedMilk)))
   \<and> id_r (last (recipes (addRecipe (fridge\<lparr>foods := []\<rparr>) 1736000001000
        (str ''2025-01-04T14:13:21.000Z'') editedToast))) = 1736000001000
   \<and> distinct (map id_r (recipes (addRecipe (fridge\<lparr>foods := []\<rparr>) 1736000001000
        (str ''2025-01-04T14:13:21.000Z'') editedToast)))"
proof -
  define sf where "sf = fridge\<lparr>recipes := []\<rparr>"
  define sr where "sr = fridge\<lparr>foods := []\<rparr>"
  have f: "foods sf = [wholeMilk, semiMilk]" and r: "recipes sr = [milkTwice, plainToast]"
    by (simp_all add: sf_def sr_def fridge_sel)
  have hf: "(0::int) < 1736000001000 \<and> (1736000001000::int) < 2 ^ 53 \<and> (0::real) \<le> 0.25 \<and>
      (0.25::real) < 1 \<and> (\<forall>f \<in> set (foods sf). id_f f < of_int 1736000001000)"
    by (simp add: f sample_ids)
  have hr: "\<forall>r \<in> set (recipes sr). id_r r < of_int 1736000001000"
    by (simp add: r sample_ids)
  have df: "distinct (map id_f (foods sf))" and dr: "distinct (map id_r (recipes sr))"
    by (simp_all add: f r sample_ids)
  note t = create_identity_fresh_after_clock
    [of sf 1736000001000 "0.25" "str ''2025-01-04T14:13:21.000Z''" editedMilk editedToast]
  note u = create_identity_fresh_after_clock
    [of sr 1736000001000 "0.25" "str ''2025-01-04T14:13:21.000Z''" editedMilk editedToast]
  have "id_f (last (foods (addFood sf 1736000001000 0.25
        (str ''2025-01-04T14:13:21.000Z'') editedMilk))) = js_add (of_int 1736000001000) 0.25"
    by (rule t [THEN conjunct2, THEN conjunct1])
  then have c1: "id_f (last (foods (addFood sf 1736000001000 0.25
        (str ''2025-01-04T14:13:21.000Z'') editedMilk))) = 1736000001000.25"
    by (simp only: of_int_numeral js_add_samples)
  have c2: "distinct (map id_f (foods (addFood sf 1736000001000 0.25
        (str ''2025-01-04T14:13:21.000Z'') editedMilk)))"
    by (rule mp [OF conjunct2 [OF mp [OF
          t [THEN conjunct2, THEN conjunct2, THEN conjunct2, THEN conjunct1] hf]] df])
  have "id_r (last (recipes (addRecipe sr 1736000001000
        (str ''2025-01-04T14:13:21.000Z'') editedToast))) = of_int 1736000001000"
    by (rule u [THEN conjunct2, THEN conjunct2, THEN conjunct2, THEN conjunct2, THEN conjunct2,
          THEN conjunct1])
  then have c3: "id_r (last (recipes (addRecipe sr 1736000001000
        (str ''2025-01-04T14:13:21.000Z'') editedToast))) = 1736000001000"
    by (simp only: of_int_numeral)
  have c4: "distinct (map id_r (recipes (addRecipe sr 1736000001000
        (str ''2025-01-04T14:13:21.000Z'') editedToast)))"
    by (rule mp [OF conjunct2 [OF mp [OF
          u [THEN conjunct2, THEN conjunct2, THEN conjunct2, THEN conjunct2, THEN conjunct2,
            THEN conjunct2] hr]] dr])
  show ?thesis using c1 c2 c3 c4 unfolding sf_def sr_def by (intro conjI)
qed

text \<open>
  A clock reading and a random number that give the identity of a food already present,
  and a clock reading that is the identity of a recipe already present.
\<close>

theorem create_identity_counterexample:
  "id_f (last (foods (addFood fridge 1736000000000 0.25
        (str ''2025-01-04T14:13:20.000Z'') editedMilk))) \<in> id_f ` set (foods fridge)
   \<and> id_r (last (recipes (addRecipe fridge 1736000000900
        (str ''2025-01-04T14:13:20.900Z'') editedToast))) \<in> id_r ` set (recipes fridge)"
proof
  have "id_f (last (foods (addFood fridge 1736000000000 0.25
        (str ''2025-01-04T14:13:20.000Z'') editedMilk))) = js_add (of_int 1736000000000) 0.25"
    by (rule addFood_id)
  also have "\<dots> = 1736000000000.25" by (simp only: of_int_numeral js_add_samples)
  also have "\<dots> = id_f wholeMilk" by (simp only: sample_ids)
  finally show "id_f (last (foods (addFood fridge 1736000000000 0.25
        (str ''2025-01-04T14:13:20.000Z'') editedMilk))) \<in> id_f ` set (foods fridge)"
    by (simp add: fridge_sel)
  show "id_r (last (recipes (addRecipe fridge 1736000000900
        (str ''2025-01-04T14:13:20.900Z'') editedToast))) \<in> id_r ` set (recipes fridge)"
    by (simp add: addRecipe_recipes fridge_sel sample_ids)
qed

text \<open>
  Rounding makes more collisions: in one millisecond two different random numbers give
  one identity, and a random number close to one gives the identity of the next
  millisecond.
\<close>

lemma create_identity_rounding:
  "id_f (last (foods (addFood s 1736000001000 0.0001 stamp d))) =
   id_f (last (foods (addFood s 1736000001000 0 stamp' d')))"
  "id_f (last (foods (addFood s 1736000000999 0.99999 stamp d))) = 1736000001000"
proof -
  have z: "js_add 1736000001000 0 = 1736000001000" by code_simp
  have a: "id_f (last (foods (addFood s 1736000001000 0.0001 stamp d))) = 1736000001000"
    unfolding addFood_id by (simp only: of_int_numeral js_add_samples)
  have b: "id_f (last (foods (addFood s 1736000001000 0 stamp' d'))) = 1736000001000"
    unfolding addFood_id by (simp only: of_int_numeral z)
  show "id_f (last (foods (addFood s 1736000001000 0.0001 stamp d))) =
   id_f (last (foods (addFood s 1736000001000 0 stamp' d')))"
    by (simp only: a b)
  show "id_f (last (foods (addFood s 1736000000999 0.99999 stamp d))) = 1736000001000"
    unfolding addFood_id by (simp only: of_int_numeral js_add_samples)
qed

lemma or_1_cases:
  "or_1 NaN = Num 1" "or_1 (Num 0) = Num 1" "x \<noteq> 0 \<Longrightarrow> or_1 (Num x) = Num x"
  by simp_all

lemma trim_Milk: "trim (str ''Milk'') = str ''Milk''"
  by (simp add: trim_def isWhiteSpace_def str_def)

lemma str_eq_Nil: "str s = [] \<longleftrightarrow> s = []"
  by (simp add: str_def)

text \<open>
  C3 at a negative quantity. Both handlers pass the form's data on with the quantity
  \<open>-5\<close> unchanged, and \<open>addFood\<close> stores a food with that quantity: \<open>x || 1\<close> replaces only
  zero and \<open>NaN\<close>.
\<close>

theorem negative_quantity_kept:
  "handleAddClick negativeForm = Inr negativeForm
   \<and> handleSubmit negativeForm = Inr negativeForm
   \<and> quantity_f (last (foods (addFood fridge 1736000001000 0.25
        (str ''2025-01-04T14:13:21.000Z'') negativeForm))) = Num (- 5)"
  by (simp add: handleAddClick_def handleSubmit_def addFood_foods negativeForm_def trim_Milk
      str_eq_Nil)

section \<open>Properties of the synchronization engine\<close>

subsection \<open>The effects\<close>

lemma effect_eq:
  "effect S c e =
     (if armed e c
      then debouncedSave e c (working e c) (createDataHash S (working e c)) else e)"
  by (cases c) (simp_all add: effect_def foodsEffect_def recipesEffect_def armed_def working_def)

lemma rerunEffects_eq: "rerunEffects S e = effect S RecipesC (effect S FoodsC e)"
  by (simp add: rerunEffects_def effect_def)

lemma onMutation_eq:
  "onMutation S e (FoodList fs) = effect S FoodsC (e\<lparr>foods := fs\<rparr>)"
  "onMutation S e (RecipeList rs) = effect S RecipesC (e\<lparr>recipes := rs\<rparr>)"
  by (simp_all add: effect_def)

lemma debouncedSave_sel:
  "foods (debouncedSave e c p h) = foods e"
  "recipes (debouncedSave e c p h) = recipes e"
  "isLoaded (debouncedSave e c p h) = isLoaded e"
  "lastFoodsSave (debouncedSave e c p h) = lastFoodsSave e"
  "lastRecipesSave (debouncedSave e c p h) = lastRecipesSave e"
  "foodsFromServerRef (debouncedSave e c p h) = foodsFromServerRef e"
  "recipesFromServerRef (debouncedSave e c p h) = recipesFromServerRef e"
  "clock (debouncedSave e c p h) = clock e"
  "saved (debouncedSave e c p h) = saved e"
  "nextTimerId (debouncedSave e c p h) = Suc (nextTimerId e)"
  "saveTimeoutRef (debouncedSave e c p h) = (saveTimeoutRef e)(c \<mapsto> nextTimerId e)"
  "timers (debouncedSave e c p h) =
     (case saveTimeoutRef e c of Some i \<Rightarrow> clearTimeout i (timers e) | None \<Rightarrow> timers e)
       @ [newTimeout e c p h]"
  by (simp_all add: debouncedSave_def Let_def)

lemma debouncedSave_obs:
  "working (debouncedSave e c p h) c' = working e c'"
  "lastSave (debouncedSave e c p h) c' = lastSave e c'"
  "armed (debouncedSave e c p h) c' = armed e c'"
  "saves_of (debouncedSave e c p h) c' = saves_of e c'"
  "dirty S (debouncedSave e c p h) c' = dirty S e c'"
  by (simp_all add: working_def lastSave_def armed_def saves_of_def dirty_def debouncedSave_sel)

lemma effect_obs:
  "working (effect S c e) c' = working e c'"
  "lastSave (effect S c e) c' = lastSave e c'"
  "armed (effect S c e) c' = armed e c'"
  "saves_of (effect S c e) c' = saves_of e c'"
  "dirty S' (effect S c e) c' = dirty S' e c'"
  "clock (effect S c e) = clock e"
  by (simp_all add: effect_eq debouncedSave_obs debouncedSave_sel)

lemma rerunEffects_obs:
  "working (rerunEffects S e) c' = working e c'"
  "lastSave (rerunEffects S e) c' = lastSave e c'"
  "armed (rerunEffects S e) c' = armed e c'"
  "saves_of (rerunEffects S e) c' = saves_of e c'"
  "dirty S' (rerunEffects S e) c' = dirty S' e c'"
  "clock (rerunEffects S e) = clock e"
  by (simp_all add: rerunEffects_eq effect_obs)

subsection \<open>The pending timeouts of a collection\<close>

lemma collection_cases: "c = FoodsC \<or> c = RecipesC"
  by (cases c) simp_all

lemma list_all_timers:
  "list_all P (timers e) \<longleftrightarrow> list_all P (pending e FoodsC) \<and> list_all P (pending e RecipesC)"
proof -
  have "t \<in> set (pending e FoodsC) \<or> t \<in> set (pending e RecipesC)" if "t \<in> set (timers e)" for t
    using that collection_cases [of "t_type t"] by (auto simp add: pending_def)
  then show ?thesis by (auto simp add: list_all_iff pending_def)
qed

lemma timers_empty_iff: "timers e = [] \<longleftrightarrow> pending e FoodsC = [] \<and> pending e RecipesC = []"
proof -
  have "t \<in> set (pending e FoodsC) \<or> t \<in> set (pending e RecipesC)" if "t \<in> set (timers e)" for t
    using that collection_cases [of "t_type t"] by (auto simp add: pending_def)
  then have "timers e = []" if "pending e FoodsC = []" "pending e RecipesC = []"
    using that by (cases "timers e") auto
  then show ?thesis by (auto simp add: pending_def)
qed

lemma pending_type: "t \<in> set (pending e c) \<Longrightarrow> t_type t = c \<and> t \<in> set (timers e)"
  by (simp add: pending_def)

lemma engine_ok_ref:
  "engine_ok e \<Longrightarrow> t \<in> set (timers e) \<Longrightarrow> saveTimeoutRef e (t_type t) = Some (timer_id t)"
  by (simp add: engine_ok_def list_all_iff)

lemma refs_differ:
  assumes "engine_ok e" and "c \<noteq> c'" and "saveTimeoutRef e c = Some i"
  shows "saveTimeoutRef e c' \<noteq> Some i"
  using assms by (cases c; cases c') (auto simp add: engine_ok_def)

lemma ref_bound:
  assumes "engine_ok e" and "saveTimeoutRef e c = Some i"
  shows "i < nextTimerId e"
  using assms by (cases c) (simp_all add: engine_ok_def)

lemma at_most_one_aux:
  assumes "distinct (map f ys)" and "\<forall>y \<in> set ys. f y = k"
  shows "length ys \<le> Suc 0"
proof (cases ys)
  case Nil
  then show ?thesis by simp
next
  case outer: (Cons a zs)
  show ?thesis
  proof (cases zs)
    case Nil
    with outer show ?thesis by simp
  next
    case (Cons b ws)
    with outer assms(2) have "f a = f b" by simp
    moreover from outer Cons assms(1) have "f a \<noteq> f b" by simp
    ultimately show ?thesis by simp
  qed
qed

lemma engine_ok_pending: "engine_ok e \<Longrightarrow> length (pending e c) \<le> 1"
proof -
  assume ok: "engine_ok e"
  show ?thesis
  proof (cases "saveTimeoutRef e c")
    case None
    have "t_type t \<noteq> c" if "t \<in> set (timers e)" for t
      using engine_ok_ref [OF ok that] None by auto
    then have "\<forall>t \<in> set (timers e). t_type t \<noteq> c" by blast
    then have "pending e c = []" by (simp add: pending_def filter_empty_conv)
    then show ?thesis by simp
  next
    case (Some i)
    have d: "distinct (map timer_id (pending e c))"
      using ok by (simp add: engine_ok_def pending_def distinct_map_filter)
    have "timer_id t = i" if "t \<in> set (pending e c)" for t
    proof -
      from that have "t \<in> set (timers e)" "t_type t = c" by (simp_all add: pending_def)
      then show ?thesis using engine_ok_ref [OF ok, of t] Some by simp
    qed
    then have "\<forall>t \<in> set (pending e c). timer_id t = i" by blast
    with d show ?thesis using at_most_one_aux [of timer_id "pending e c" i] by simp
  qed
qed

lemma pending_single:
  assumes "engine_ok e" and "t \<in> set (timers e)"
  shows "pending e (t_type t) = [t]"
proof -
  have m: "t \<in> set (pending e (t_type t))" using assms(2) by (simp add: pending_def)
  have "length (pending e (t_type t)) \<le> 1" using assms(1) by (rule engine_ok_pending)
  with m show ?thesis by (cases "pending e (t_type t)") auto
qed

lemma cleared_own:
  assumes "engine_ok e"
  shows "filter (\<lambda>t. t_type t = c)
           (case saveTimeoutRef e c of Some i \<Rightarrow> clearTimeout i (timers e) | None \<Rightarrow> timers e) = []"
proof (cases "saveTimeoutRef e c")
  case None
  have "t_type t \<noteq> c" if "t \<in> set (timers e)" for t
    using engine_ok_ref [OF assms that] None by auto
  then show ?thesis using None by (simp add: filter_empty_conv)
next
  case (Some i)
  have "timer_id t = i" if "t \<in> set (timers e)" "t_type t = c" for t
    using engine_ok_ref [OF assms that(1)] that(2) Some by simp
  then show ?thesis using Some by (auto simp add: clearTimeout_def filter_empty_conv)
qed

lemma cleared_other:
  assumes "engine_ok e" and "c' \<noteq> c"
  shows "filter (\<lambda>t. t_type t = c')
           (case saveTimeoutRef e c of Some i \<Rightarrow> clearTimeout i (timers e) | None \<Rightarrow> timers e)
         = pending e c'"
proof (cases "saveTimeoutRef e c")
  case None
  then show ?thesis by (simp add: pending_def)
next
  case (Some i)
  have "timer_id t \<noteq> i" if "t \<in> set (timers e)" "t_type t = c'" for t
  proof -
    have "saveTimeoutRef e c' = Some (timer_id t)"
      using engine_ok_ref [OF assms(1) that(1)] that(2) by simp
    moreover have "saveTimeoutRef e c' \<noteq> Some i"
      using assms(1) _ Some by (rule refs_differ) (use assms(2) in simp)
    ultimately show ?thesis by auto
  qed
  then have "filter (\<lambda>t. t_type t = c') (filter (\<lambda>t. timer_id t \<noteq> i) (timers e)) =
      filter (\<lambda>t. t_type t = c') (timers e)"
    unfolding filter_filter by (intro filter_cong) auto
  then show ?thesis using Some by (simp add: clearTimeout_def pending_def)
qed

lemma newTimeout_sel:
  "timer_id (newTimeout e c p h) = nextTimerId e"
  "fire_at (newTimeout e c p h) = clock e + 500"
  "t_type (newTimeout e c p h) = c"
  "t_data (newTimeout e c p h) = p"
  "t_hash (newTimeout e c p h) = h"
  "captured c' (newTimeout e c p h) = lastSave e c'"
  by (simp_all add: newTimeout_def captured_def lastSave_def)

lemma pending_debouncedSave:
  assumes "engine_ok e"
  shows "pending (debouncedSave e c p h) c' =
           (if c' = c then [newTimeout e c p h] else pending e c')"
proof (cases "c' = c")
  case True
  then show ?thesis
    using cleared_own [OF assms, of c]
    by (simp add: pending_def debouncedSave_sel newTimeout_sel)
next
  case False
  then show ?thesis
    using cleared_other [OF assms False]
    by (simp add: pending_def debouncedSave_sel newTimeout_sel)
qed

lemma engine_ok_debouncedSave:
  assumes ok: "engine_ok e"
  shows "engine_ok (debouncedSave e c p h)"
proof -
  define cleared where
    "cleared = (case saveTimeoutRef e c of Some i \<Rightarrow> clearTimeout i (timers e) | None \<Rightarrow> timers e)"
  have sub: "set cleared \<subseteq> set (timers e)"
    by (auto simp add: cleared_def clearTimeout_def split: option.splits)
  have none: "\<forall>t \<in> set cleared. t_type t \<noteq> c"
    using cleared_own [OF ok, of c] by (simp add: cleared_def filter_empty_conv)
  have dist: "distinct (map timer_id cleared)"
    using ok by (auto simp add: cleared_def clearTimeout_def engine_ok_def distinct_map_filter
        split: option.splits)
  have refs: "\<forall>t \<in> set cleared. saveTimeoutRef e (t_type t) = Some (timer_id t)"
    using engine_ok_ref [OF ok] sub by blast
  have bound: "\<forall>t \<in> set cleared. timer_id t < nextTimerId e"
  proof
    fix t assume "t \<in> set cleared"
    then have "saveTimeoutRef e (t_type t) = Some (timer_id t)" using refs by blast
    then show "timer_id t < nextTimerId e" using ok by (rule ref_bound [rotated])
  qed
  have old: "i < Suc (nextTimerId e)" if "saveTimeoutRef e c' = Some i" for c' i
    using ref_bound [OF ok that] by simp
  have shape: "debouncedSave e c p h =
      e\<lparr>timers := cleared @ [newTimeout e c p h],
         nextTimerId := Suc (nextTimerId e),
         saveTimeoutRef := (saveTimeoutRef e)(c \<mapsto> nextTimerId e)\<rparr>"
    by (simp add: debouncedSave_def Let_def cleared_def)
  have differ: "saveTimeoutRef e c' \<noteq> Some (nextTimerId e)" for c'
    using ref_bound [OF ok, of c' "nextTimerId e"] by auto
  show ?thesis
    unfolding shape engine_ok_def
    using none dist bound refs old differ
    by (cases c) (auto simp add: list_all_iff newTimeout_sel split: option.splits)
qed

lemma pending_effect:
  assumes "engine_ok e"
  shows "pending (effect S c e) c' =
           (if armed e c \<and> c' = c
            then [newTimeout e c (working e c) (createDataHash S (working e c))]
            else pending e c')"
  by (simp add: effect_eq pending_debouncedSave [OF assms])

lemma engine_ok_effect: "engine_ok e \<Longrightarrow> engine_ok (effect S c e)"
  by (simp add: effect_eq engine_ok_debouncedSave)

lemma engine_ok_rerunEffects: "engine_ok e \<Longrightarrow> engine_ok (rerunEffects S e)"
  by (simp add: rerunEffects_eq engine_ok_effect)

text \<open>A timeout that the effect of collection \<open>c\<close> sets in the state \<open>e\<close>.\<close>

lemma pending_rerunEffects:
  assumes ok: "engine_ok e"
  shows "armed e c \<Longrightarrow> \<exists>u. pending (rerunEffects S e) c = [u] \<and> t_type u = c \<and>
            t_data u = working e c \<and> t_hash u = createDataHash S (working e c) \<and>
            captured c u = lastSave e c \<and> fire_at u = clock e + 500"
    and "\<not> armed e c \<Longrightarrow> pending (rerunEffects S e) c = pending e c"
proof -
  define e1 where "e1 = effect S FoodsC e"
  have ok1: "engine_ok e1" unfolding e1_def using ok by (rule engine_ok_effect)
  have p: "pending (rerunEffects S e) c =
      (if armed e RecipesC \<and> c = RecipesC
       then [newTimeout e1 RecipesC (working e RecipesC) (createDataHash S (working e RecipesC))]
       else if armed e FoodsC \<and> c = FoodsC
       then [newTimeout e FoodsC (working e FoodsC) (createDataHash S (working e FoodsC))]
       else pending e c)"
    unfolding rerunEffects_eq e1_def [symmetric]
    by (simp add: pending_effect [OF ok1]) (simp add: e1_def pending_effect [OF ok] effect_obs)
  have sel1: "clock e1 = clock e" "lastSave e1 RecipesC = lastSave e RecipesC"
    by (simp_all add: e1_def effect_obs)
  show "\<exists>u. pending (rerunEffects S e) c = [u] \<and> t_type u = c \<and>
            t_data u = working e c \<and> t_hash u = createDataHash S (working e c) \<and>
            captured c u = lastSave e c \<and> fire_at u = clock e + 500" if "armed e c"
    using that collection_cases [of c] by (auto simp add: p newTimeout_sel sel1)
  show "pending (rerunEffects S e) c = pending e c" if "\<not> armed e c"
    using that collection_cases [of c] by (auto simp add: p)
qed

subsection \<open>The callback of a timeout\<close>

lemma saveDone_sel:
  "timers (saveDone e c d h) = timers e"
  "clock (saveDone e c d h) = clock e"
  "saveTimeoutRef (saveDone e c d h) = saveTimeoutRef e"
  "nextTimerId (saveDone e c d h) = nextTimerId e"
  by (simp_all add: saveDone_def)

lemma saveDone_obs:
  "working (saveDone e c d h) c' = working e c'"
  "armed (saveDone e c d h) c' = armed e c'"
  "pending (saveDone e c d h) c' = pending e c'"
  "lastSave (saveDone e c d h) c' = (if c' = c then h else lastSave e c')"
  "saves_of (saveDone e c d h) c' = (if c' = c then saves_of e c @ [d] else saves_of e c')"
  using collection_cases [of c] collection_cases [of c']
  by (auto simp add: saveDone_def working_def armed_def pending_def lastSave_def saves_of_def)

lemma engine_ok_saveDone: "engine_ok (saveDone e c d h) = engine_ok e"
  by (simp add: engine_ok_def saveDone_sel split: option.splits)

lemma timerCallback_eq:
  "timerCallback S e t =
     (if t_hash t \<noteq> captured (t_type t) t
      then (if lastSave e (t_type t) \<noteq> t_hash t
            then rerunEffects S (saveDone e (t_type t) (t_data t) (t_hash t))
            else saveDone e (t_type t) (t_data t) (t_hash t))
      else e)"
  by (simp add: timerCallback_def captured_def lastSave_def saveDone_def Let_def)

lemma timerCallback_clock: "clock (timerCallback S e t) = clock e"
  by (simp add: timerCallback_eq rerunEffects_obs saveDone_sel)


lemma removed_obs:
  "working (e\<lparr>timers := ts\<rparr>) c = working e c"
  "armed (e\<lparr>timers := ts\<rparr>) c = armed e c"
  "lastSave (e\<lparr>timers := ts\<rparr>) c = lastSave e c"
  "saves_of (e\<lparr>timers := ts\<rparr>) c = saves_of e c"
  "dirty S (e\<lparr>timers := ts\<rparr>) c = dirty S e c"
  by (simp_all add: working_def armed_def lastSave_def saves_of_def dirty_def)

lemma engine_ok_removed:
  assumes "engine_ok e"
  shows "engine_ok (e\<lparr>timers := remove1 t (timers e)\<rparr>)"
proof -
  have "set (remove1 t (timers e)) \<subseteq> set (timers e)" by (rule set_remove1_subset)
  moreover have "distinct (map timer_id (remove1 t (timers e)))"
  proof -
    have "distinct (timers e)" "inj_on timer_id (set (timers e))"
      using assms by (simp_all add: engine_ok_def distinct_map)
    then have "distinct (remove1 t (timers e))" "inj_on timer_id (set (remove1 t (timers e)))"
      by (simp_all add: inj_on_diff)
    then show ?thesis by (simp add: distinct_map)
  qed
  ultimately show ?thesis
    using assms by (auto simp add: engine_ok_def list_all_iff split: option.splits)
qed

lemma pending_removed:
  assumes ok: "engine_ok e" and t: "t \<in> set (timers e)"
  shows "pending (e\<lparr>timers := remove1 t (timers e)\<rparr>) c =
           (if c = t_type t then [] else pending e c)"
proof -
  have d: "distinct (timers e)" using ok by (simp add: engine_ok_def distinct_map)
  have r: "remove1 t (timers e) = filter (\<lambda>u. u \<noteq> t) (timers e)"
    using d by (simp add: distinct_remove1_removeAll removeAll_filter_not_eq) (metis)
  have p: "pending (e\<lparr>timers := remove1 t (timers e)\<rparr>) c = filter (\<lambda>u. u \<noteq> t) (pending e c)"
    unfolding pending_def r by (simp add: conj_commute)
  show ?thesis
  proof (cases "c = t_type t")
    case True
    then show ?thesis using pending_single [OF ok t] p by simp
  next
    case False
    then have "\<forall>u \<in> set (pending e c). u \<noteq> t" by (auto simp add: pending_def)
    then have "filter (\<lambda>u. u \<noteq> t) (pending e c) = pending e c" by (simp add: filter_id_conv)
    with False p show ?thesis by simp
  qed
qed

lemma timers_pending: "t \<in> set (timers e) \<longleftrightarrow> t \<in> set (pending e (t_type t))"
  by (simp add: pending_def)

lemma consistent_iff:
  "consistent S e \<longleftrightarrow>
     engine_ok e \<and> (\<forall>c. \<forall>t \<in> set (pending e c). up_to_date S e t \<and> clock e \<le> fire_at t)"
  unfolding consistent_def list_all_iff using timers_pending pending_type by blast

lemma at_rest_iff:
  "at_rest S e \<longleftrightarrow>
     engine_ok e \<and> (\<forall>c. \<forall>t \<in> set (pending e c). up_to_date S e t \<and> clock e < fire_at t)"
  unfolding at_rest_def list_all_iff using timers_pending pending_type by blast

lemma at_rest_consistent: "at_rest S e \<Longrightarrow> consistent S e"
  by (auto simp add: at_rest_def consistent_def list_all_iff)

lemma consistent_timer:
  assumes "consistent S e" and "t \<in> set (timers e)"
  shows "up_to_date S e t" and "clock e \<le> fire_at t" and "engine_ok e"
  using assms by (simp_all add: consistent_def list_all_iff)

lemma unarmed_no_pending:
  assumes "consistent S e" and "\<not> armed e c"
  shows "pending e c = []"
proof (cases "pending e c")
  case Nil
  then show ?thesis .
next
  case (Cons u us)
  then have "u \<in> set (pending e c)" by simp
  then have "t_type u = c" "u \<in> set (timers e)" by (simp_all add: pending_def)
  then have "armed e c" using consistent_timer(1) [OF assms(1), of u] by (simp add: up_to_date_def)
  with assms(2) show ?thesis by simp
qed

lemma dirty_iff:
  assumes "consistent S e" and "t \<in> set (timers e)"
  shows "t_hash t \<noteq> captured (t_type t) t \<longleftrightarrow> dirty S e (t_type t)"
    and "t_hash t = createDataHash S (working e (t_type t))"
    and "t_data t = working e (t_type t)"
  using consistent_timer(1) [OF assms] by (simp_all add: up_to_date_def dirty_def)

text \<open>The timeout of a collection that agrees with what was saved last: it is only removed.\<close>

lemma callback_clean:
  assumes con: "consistent S e" and t: "t \<in> set (timers e)"
    and clean: "\<not> dirty S e (t_type t)"
  defines "e' \<equiv> timerCallback S (e\<lparr>timers := remove1 t (timers e)\<rparr>) t"
  shows "e' = e\<lparr>timers := remove1 t (timers e)\<rparr>"
    and "consistent S e'"
    and "pending e' c = (if c = t_type t then [] else pending e c)"
    and "lastSave e' c = lastSave e c"
    and "saves_of e' c = saves_of e c"
    and "dirty S e' c = dirty S e c"
proof -
  have ok: "engine_ok e" using con by (simp add: consistent_def)
  show eq: "e' = e\<lparr>timers := remove1 t (timers e)\<rparr>"
    unfolding e'_def timerCallback_eq using dirty_iff(1) [OF con t] clean by simp
  show p: "pending e' c = (if c = t_type t then [] else pending e c)" for c
    unfolding eq by (rule pending_removed [OF ok t])
  show "lastSave e' c = lastSave e c" "saves_of e' c = saves_of e c" "dirty S e' c = dirty S e c"
    unfolding eq by (simp_all add: removed_obs)
  have "up_to_date S e' u \<and> clock e' \<le> fire_at u" if "u \<in> set (pending e' c)" for c u
  proof -
    from that p [of c] have "u \<in> set (pending e c)" by (auto split: if_splits)
    then have "up_to_date S e u \<and> clock e \<le> fire_at u"
      using con unfolding consistent_iff by blast
    then show ?thesis unfolding eq by (simp add: up_to_date_def removed_obs)
  qed
  moreover have "engine_ok e'" unfolding eq using ok by (rule engine_ok_removed)
  ultimately show "consistent S e'" unfolding consistent_iff by blast
qed

text \<open>
  The timeout of a collection that differs from what was saved last: the collection is
  saved, and the effects set a new timeout for each armed collection.
\<close>

lemma callback_dirty:
  assumes con: "consistent S e" and t: "t \<in> set (timers e)"
    and d: "dirty S e (t_type t)"
  defines "e' \<equiv> timerCallback S (e\<lparr>timers := remove1 t (timers e)\<rparr>) t"
  shows "consistent S e'"
    and "lastSave e' c =
           (if c = t_type t then createDataHash S (working e c) else lastSave e c)"
    and "saves_of e' c = (if c = t_type t then saves_of e c @ [working e c] else saves_of e c)"
    and "dirty S e' c = (c \<noteq> t_type t \<and> dirty S e c)"
    and "\<forall>u \<in> set (timers e'). fire_at u = clock e + 500"
    and "armed e c \<Longrightarrow> pending e' c \<noteq> []"
proof -
  define e0 where "e0 = e\<lparr>timers := remove1 t (timers e)\<rparr>"
  define h where "h = createDataHash S (working e (t_type t))"
  define e1 where "e1 = saveDone e0 (t_type t) (working e (t_type t)) h"
  have ok: "engine_ok e" using con by (simp add: consistent_def)
  have ok1: "engine_ok e1"
    unfolding e1_def e0_def engine_ok_saveDone using ok by (rule engine_ok_removed)
  have ls0: "lastSave e0 (t_type t) \<noteq> h"
    using d by (simp add: e0_def removed_obs dirty_def h_def)
  have eq: "e' = rerunEffects S e1"
    unfolding e'_def timerCallback_eq e0_def [symmetric]
    using dirty_iff [OF con t] d ls0 by (simp add: e1_def h_def)
  have w: "working e' c = working e c" for c
    unfolding eq by (simp add: rerunEffects_obs e1_def saveDone_obs e0_def removed_obs)
  have a: "armed e' c = armed e c" for c
    unfolding eq by (simp add: rerunEffects_obs e1_def saveDone_obs e0_def removed_obs)
  have a1: "armed e1 c = armed e c" for c
    by (simp add: e1_def saveDone_obs e0_def removed_obs)
  have w1: "working e1 c = working e c" for c
    by (simp add: e1_def saveDone_obs e0_def removed_obs)
  have c1: "clock e1 = clock e" by (simp add: e1_def saveDone_sel e0_def)
  have ck: "clock e' = clock e" unfolding eq by (simp add: rerunEffects_obs c1)
  show ls: "lastSave e' c =
      (if c = t_type t then createDataHash S (working e c) else lastSave e c)" for c
    unfolding eq by (simp add: rerunEffects_obs e1_def saveDone_obs e0_def removed_obs h_def)
  have ls1: "lastSave e1 c = lastSave e' c" for c
    unfolding eq by (simp add: rerunEffects_obs)
  show "saves_of e' c = (if c = t_type t then saves_of e c @ [working e c] else saves_of e c)"
    unfolding eq by (simp add: rerunEffects_obs e1_def saveDone_obs e0_def removed_obs)
  show "dirty S e' c = (c \<noteq> t_type t \<and> dirty S e c)"
    by (simp add: dirty_def w ls)
  have fresh: "\<exists>u. pending e' c = [u] \<and> up_to_date S e' u \<and> fire_at u = clock e + 500"
    if "armed e c" for c
  proof -
    from that have "armed e1 c" by (simp add: a1)
    from pending_rerunEffects(1) [OF ok1 this, of S] obtain u where
      u: "pending e' c = [u]" "t_type u = c" "t_data u = working e1 c"
        "t_hash u = createDataHash S (working e1 c)" "captured c u = lastSave e1 c"
        "fire_at u = clock e1 + 500"
      unfolding eq by blast
    have "up_to_date S e' u"
      using u that by (simp add: up_to_date_def w w1 ls1 a c1 ck)
    with u show ?thesis by (simp add: c1)
  qed
  have none: "pending e' c = []" if "\<not> armed e c" for c
  proof -
    from that have "\<not> armed e1 c" by (simp add: a1)
    then have "pending e' c = pending e1 c"
      unfolding eq by (rule pending_rerunEffects(2) [OF ok1])
    also have "\<dots> = (if c = t_type t then [] else pending e c)"
      unfolding e1_def saveDone_obs e0_def by (rule pending_removed [OF ok t])
    also have "\<dots> = []" using unarmed_no_pending [OF con that] by simp
    finally show ?thesis .
  qed
  have all: "up_to_date S e' u \<and> fire_at u = clock e + 500" if "u \<in> set (pending e' c)" for u c
  proof (cases "armed e c")
    case True
    with fresh [of c] that show ?thesis by auto
  next
    case False
    with none [of c] that show ?thesis by simp
  qed
  show "\<forall>u \<in> set (timers e'). fire_at u = clock e + 500"
    using all timers_pending by blast
  show "pending e' c \<noteq> []" if "armed e c"
    using fresh [OF that] by auto
  have "engine_ok e'" unfolding eq using ok1 by (rule engine_ok_rerunEffects)
  moreover have "up_to_date S e' u \<and> clock e' \<le> fire_at u" if "u \<in> set (pending e' c)" for u c
    using all [OF that] by (simp add: ck)
  ultimately show "consistent S e'" unfolding consistent_iff by blast
qed



subsection \<open>The passing of time\<close>

lemma next_due_Some:
  assumes "next_due e = Some t"
  shows "t \<in> set (timers e)" and "fire_at t \<le> clock e"
proof -
  from assms obtain ts where
    "sort_key fire_at (filter (\<lambda>t. fire_at t \<le> clock e) (timers e)) = t # ts"
    by (auto simp add: next_due_def split: list.splits)
  then have "t \<in> set (sort_key fire_at (filter (\<lambda>t. fire_at t \<le> clock e) (timers e)))"
    by simp
  then show "t \<in> set (timers e)" and "fire_at t \<le> clock e" by simp_all
qed

lemma next_due_None:
  assumes "next_due e = None"
  shows "\<forall>t \<in> set (timers e). clock e < fire_at t"
proof -
  from assms have "sort_key fire_at (filter (\<lambda>t. fire_at t \<le> clock e) (timers e)) = []"
    by (auto simp add: next_due_def split: list.splits)
  then have "set (sort_key fire_at (filter (\<lambda>t. fire_at t \<le> clock e) (timers e))) = {}"
    by simp
  then have "set (filter (\<lambda>t. fire_at t \<le> clock e) (timers e)) = {}" by simp
  then show ?thesis by (auto simp add: filter_empty_conv)
qed

lemma callback_consistent:
  assumes "consistent S e" and "t \<in> set (timers e)"
  shows "consistent S (timerCallback S (e\<lparr>timers := remove1 t (timers e)\<rparr>) t)"
proof (cases "dirty S e (t_type t)")
  case True
  with assms show ?thesis by (rule callback_dirty(1))
next
  case False
  with assms show ?thesis by (rule callback_clean(2))
qed

lemma clock_run_due: "clock (run_due S n e) = clock e"
  by (induction n arbitrary: e) (simp_all add: timerCallback_clock split: option.splits)

lemma run_due_induct:
  assumes con: "consistent S e" and q: "Q e"
    and step: "\<And>e t. consistent S e \<Longrightarrow> Q e \<Longrightarrow> t \<in> set (timers e) \<Longrightarrow> fire_at t = clock e
      \<Longrightarrow> Q (timerCallback S (e\<lparr>timers := remove1 t (timers e)\<rparr>) t)"
  shows "Q (run_due S n e) \<and> consistent S (run_due S n e)"
  using con q
proof (induction n arbitrary: e)
  case 0
  then show ?case by simp
next
  case (Suc n)
  show ?case
  proof (cases "next_due e")
    case None
    with Suc.prems show ?thesis by simp
  next
    case (Some t)
    define e' where "e' = timerCallback S (e\<lparr>timers := remove1 t (timers e)\<rparr>) t"
    have t: "t \<in> set (timers e)" "fire_at t \<le> clock e" using next_due_Some [OF Some] by simp_all
    have "clock e \<le> fire_at t" using consistent_timer(2) [OF Suc.prems(1) t(1)] .
    with t(2) have f: "fire_at t = clock e" by simp
    have "consistent S e'" unfolding e'_def using Suc.prems(1) t(1) by (rule callback_consistent)
    moreover have "Q e'" unfolding e'_def using Suc.prems t(1) f by (rule step)
    ultimately have "Q (run_due S n e') \<and> consistent S (run_due S n e')" by (rule Suc.IH)
    then show ?thesis using Some by (simp add: e'_def)
  qed
qed

lemma callback_due:
  assumes con: "consistent S e" and t: "t \<in> set (timers e)" and due: "fire_at t \<le> clock e"
  defines "e' \<equiv> timerCallback S (e\<lparr>timers := remove1 t (timers e)\<rparr>) t"
  shows "length (filter (\<lambda>u. fire_at u \<le> clock e) (timers e'))
           < length (filter (\<lambda>u. fire_at u \<le> clock e) (timers e))"
proof -
  have m: "t \<in> set (filter (\<lambda>u. fire_at u \<le> clock e) (timers e))" using t due by simp
  then have pos: "0 < length (filter (\<lambda>u. fire_at u \<le> clock e) (timers e))"
    by (cases "filter (\<lambda>u. fire_at u \<le> clock e) (timers e)") auto
  show ?thesis
  proof (cases "dirty S e (t_type t)")
    case True
    have "\<forall>u \<in> set (timers e'). fire_at u = clock e + 500"
      unfolding e'_def using con t True by (rule callback_dirty(5))
    then have "filter (\<lambda>u. fire_at u \<le> clock e) (timers e') = []"
      by (auto simp add: filter_empty_conv)
    with pos show ?thesis by simp
  next
    case False
    have "e' = e\<lparr>timers := remove1 t (timers e)\<rparr>"
      unfolding e'_def using con t False by (rule callback_clean(1))
    then have "filter (\<lambda>u. fire_at u \<le> clock e) (timers e') =
        remove1 t (filter (\<lambda>u. fire_at u \<le> clock e) (timers e))"
      by (simp add: filter_remove1)
    then show ?thesis using m pos by (simp add: length_remove1)
  qed
qed

lemma run_due_settles:
  assumes "consistent S e"
    and "length (filter (\<lambda>u. fire_at u \<le> clock e) (timers e)) \<le> n"
  shows "\<forall>t \<in> set (timers (run_due S n e)). clock e < fire_at t"
  using assms
proof (induction n arbitrary: e)
  case 0
  then have "filter (\<lambda>u. fire_at u \<le> clock e) (timers e) = []" by simp
  then show ?case by (auto simp add: filter_empty_conv)
next
  case (Suc n)
  show ?case
  proof (cases "next_due e")
    case None
    then show ?thesis using next_due_None [OF None] by simp
  next
    case (Some t)
    define e' where "e' = timerCallback S (e\<lparr>timers := remove1 t (timers e)\<rparr>) t"
    have t: "t \<in> set (timers e)" "fire_at t \<le> clock e" using next_due_Some [OF Some] by simp_all
    have ck: "clock e' = clock e" by (simp add: e'_def timerCallback_clock)
    have "consistent S e'" unfolding e'_def using Suc.prems(1) t(1) by (rule callback_consistent)
    moreover have "length (filter (\<lambda>u. fire_at u \<le> clock e') (timers e')) \<le> n"
      using callback_due [OF Suc.prems(1) t] Suc.prems(2) by (simp add: e'_def ck [unfolded e'_def])
    ultimately have "\<forall>t \<in> set (timers (run_due S n e')). clock e' < fire_at t" by (rule Suc.IH)
    then show ?thesis using Some by (simp add: e'_def ck [unfolded e'_def])
  qed
qed

lemma clock_set_obs:
  "working (e\<lparr>clock := k\<rparr>) c = working e c"
  "armed (e\<lparr>clock := k\<rparr>) c = armed e c"
  "lastSave (e\<lparr>clock := k\<rparr>) c = lastSave e c"
  "saves_of (e\<lparr>clock := k\<rparr>) c = saves_of e c"
  "pending (e\<lparr>clock := k\<rparr>) c = pending e c"
  "dirty S (e\<lparr>clock := k\<rparr>) c = dirty S e c"
  "ndirty S (e\<lparr>clock := k\<rparr>) = ndirty S e"
  by (simp_all add: working_def armed_def lastSave_def saves_of_def pending_def dirty_def
      ndirty_def)

lemma engine_ok_clock: "engine_ok (e\<lparr>clock := k\<rparr>) = engine_ok e"
  by (simp add: engine_ok_def split: option.splits)

lemma at_rest_clock:
  assumes "at_rest S e"
  shows "consistent S (e\<lparr>clock := Suc (clock e)\<rparr>)"
proof -
  define e' where "e' = e\<lparr>clock := Suc (clock e)\<rparr>"
  have "up_to_date S e' t \<and> clock e' \<le> fire_at t" if "t \<in> set (pending e' c)" for t c
  proof -
    from that have "t \<in> set (pending e c)" by (simp add: e'_def clock_set_obs)
    then have "up_to_date S e t" "clock e < fire_at t"
      using assms unfolding at_rest_iff by blast+
    then show ?thesis by (simp add: up_to_date_def e'_def clock_set_obs)
  qed
  moreover have "engine_ok e'" using assms by (simp add: e'_def engine_ok_clock at_rest_def)
  ultimately show ?thesis unfolding consistent_iff e'_def by blast
qed

lemma tick_induct:
  assumes rest: "at_rest S e" and q: "Q (e\<lparr>clock := Suc (clock e)\<rparr>)"
    and step: "\<And>e t. consistent S e \<Longrightarrow> Q e \<Longrightarrow> t \<in> set (timers e) \<Longrightarrow> fire_at t = clock e
      \<Longrightarrow> Q (timerCallback S (e\<lparr>timers := remove1 t (timers e)\<rparr>) t)"
  shows "Q (tick S e) \<and> at_rest S (tick S e)"
proof -
  define e0 where "e0 = e\<lparr>clock := Suc (clock e)\<rparr>"
  have con: "consistent S e0" unfolding e0_def using rest by (rule at_rest_clock)
  have tk: "tick S e = run_due S (length (timers e0)) e0" by (simp add: tick_def e0_def)
  have r: "Q (tick S e) \<and> consistent S (tick S e)"
    unfolding tk using con q [folded e0_def] step by (rule run_due_induct)
  have "length (filter (\<lambda>u. fire_at u \<le> clock e0) (timers e0)) \<le> length (timers e0)"
    by (rule length_filter_le)
  with con have "\<forall>t \<in> set (timers (run_due S (length (timers e0)) e0)). clock e0 < fire_at t"
    by (rule run_due_settles)
  then have "\<forall>t \<in> set (timers (tick S e)). clock (tick S e) < fire_at t"
    by (simp add: tk clock_run_due)
  with r show ?thesis by (auto simp add: consistent_def at_rest_def list_all_iff)
qed



lemma advance_induct:
  assumes rest: "at_rest S e" and q: "Q e"
    and clk: "\<And>e. at_rest S e \<Longrightarrow> Q e \<Longrightarrow> Q (e\<lparr>clock := Suc (clock e)\<rparr>)"
    and step: "\<And>e t. consistent S e \<Longrightarrow> Q e \<Longrightarrow> t \<in> set (timers e) \<Longrightarrow> fire_at t = clock e
      \<Longrightarrow> Q (timerCallback S (e\<lparr>timers := remove1 t (timers e)\<rparr>) t)"
  shows "Q (advance S e n) \<and> at_rest S (advance S e n)"
  using rest q
proof (induction n arbitrary: e)
  case 0
  then show ?case by simp
next
  case (Suc n)
  have "Q (e\<lparr>clock := Suc (clock e)\<rparr>)" using Suc.prems by (rule clk)
  with Suc.prems(1) have "Q (tick S e) \<and> at_rest S (tick S e)" using step by (rule tick_induct)
  then have "Q (advance S (tick S e) n) \<and> at_rest S (advance S (tick S e) n)"
    using Suc.IH by blast
  then show ?case by simp
qed

lemma at_rest_advance: "at_rest S e \<Longrightarrow> at_rest S (advance S e n)"
  using advance_induct [of S e "\<lambda>_. True" n] by simp

lemma advance_add: "advance S e (m + n) = advance S (advance S e m) n"
  by (induction m arbitrary: e) simp_all

subsection \<open>A mutation\<close>

lemma onMutation_effect: "onMutation S e p = effect S (kind p) (setWorking e p)"
  by (cases p) (simp_all add: effect_def)

lemma setWorking_working:
  "working (setWorking e p) c = (if c = kind p then p else working e c)"
  using collection_cases [of c] by (cases p) (auto simp add: working_def)

lemma setWorking_armed: "armed (setWorking e p) c = armed e c"
  by (cases p) (simp_all add: armed_def)

lemma setWorking_lastSave: "lastSave (setWorking e p) c = lastSave e c"
  by (cases p) (simp_all add: lastSave_def)

lemma setWorking_saves_of: "saves_of (setWorking e p) c = saves_of e c"
  by (cases p) (simp_all add: saves_of_def)

lemma setWorking_pending: "pending (setWorking e p) c = pending e c"
  by (cases p) (simp_all add: pending_def)

lemma setWorking_clock: "clock (setWorking e p) = clock e"
  by (cases p) simp_all

lemmas setWorking_obs = setWorking_working setWorking_armed setWorking_lastSave
  setWorking_saves_of setWorking_pending setWorking_clock

lemma engine_ok_setWorking: "engine_ok (setWorking e p) = engine_ok e"
  by (cases p) (simp_all add: engine_ok_def split: option.splits)

lemma onMutation_obs:
  "working (onMutation S e p) c = (if c = kind p then p else working e c)"
  "armed (onMutation S e p) c = armed e c"
  "lastSave (onMutation S e p) c = lastSave e c"
  "saves_of (onMutation S e p) c = saves_of e c"
  "clock (onMutation S e p) = clock e"
  by (simp_all add: onMutation_effect effect_obs setWorking_obs)

lemma engine_ok_onMutation: "engine_ok e \<Longrightarrow> engine_ok (onMutation S e p)"
  by (simp add: onMutation_effect engine_ok_effect engine_ok_setWorking)

lemma pending_onMutation:
  assumes rest: "at_rest S e"
  shows "at_rest S (onMutation S e p)"
    and "c \<noteq> kind p \<Longrightarrow> pending (onMutation S e p) c = pending e c"
    and "armed e (kind p) \<Longrightarrow>
          \<exists>u. pending (onMutation S e p) (kind p) = [u] \<and> fire_at u = clock e + 500"
    and "\<not> armed e (kind p) \<Longrightarrow> pending (onMutation S e p) (kind p) = []"
proof -
  define e0 where "e0 = setWorking e p"
  define e' where "e' = onMutation S e p"
  define u where "u = newTimeout e0 (kind p) p (createDataHash S p)"
  have ok: "engine_ok e" using rest by (simp add: at_rest_def)
  have ok0: "engine_ok e0" using ok by (simp add: e0_def engine_ok_setWorking)
  have eq: "e' = effect S (kind p) e0" by (simp add: e'_def e0_def onMutation_effect)
  have pe: "pending e' c = (if armed e (kind p) \<and> c = kind p then [u] else pending e c)" for c
    unfolding eq pending_effect [OF ok0] by (simp add: e0_def setWorking_obs u_def)
  have unarmed: "pending e (kind p) = []" if "\<not> armed e (kind p)"
    using at_rest_consistent [OF rest] that by (rule unarmed_no_pending)
  show "pending (onMutation S e p) c = pending e c" if "c \<noteq> kind p"
    using that pe [of c] by (simp add: e'_def)
  have fu: "fire_at u = clock e + 500" by (simp add: u_def newTimeout_sel e0_def setWorking_obs)
  show "\<exists>u. pending (onMutation S e p) (kind p) = [u] \<and> fire_at u = clock e + 500"
    if "armed e (kind p)"
    using that pe [of "kind p"] fu by (simp add: e'_def)
  show "pending (onMutation S e p) (kind p) = []" if "\<not> armed e (kind p)"
    using that pe [of "kind p"] unarmed by (simp add: e'_def)
  have "up_to_date S e' v \<and> clock e' < fire_at v" if v: "v \<in> set (pending e' c)" for v c
  proof (cases "armed e (kind p) \<and> c = kind p")
    case True
    with v pe [of c] have "v = u" by simp
    then show ?thesis
      using True fu
      by (simp add: up_to_date_def u_def newTimeout_sel e'_def onMutation_obs e0_def
          setWorking_obs)
  next
    case False
    with v pe [of c] have m: "v \<in> set (pending e c)" by simp
    then have old: "up_to_date S e v" "clock e < fire_at v"
      using rest unfolding at_rest_iff by blast+
    have ty: "t_type v = c" using m by (simp add: pending_def)
    have "c \<noteq> kind p"
    proof
      assume "c = kind p"
      with False have "\<not> armed e (kind p)" by simp
      from unarmed [OF this] m \<open>c = kind p\<close> show False by simp
    qed
    then show ?thesis
      using old ty by (simp add: up_to_date_def e'_def onMutation_obs)
  qed
  moreover have "engine_ok e'" unfolding e'_def using ok by (rule engine_ok_onMutation)
  ultimately show "at_rest S (onMutation S e p)"
    unfolding at_rest_iff e'_def by blast
qed

subsection \<open>Mutations within the window, and the wait after the last one\<close>


lemma at_rest_burst: "at_rest S e \<Longrightarrow> at_rest S (burst S e ms)"
proof (induction ms arbitrary: e)
  case Nil
  then show ?case by simp
next
  case (Cons m ms)
  obtain p gap where m: "m = (p, gap)" by (cases m)
  have "at_rest S (onMutation S e p)" using Cons.prems by (rule pending_onMutation(1))
  then have "at_rest S (advance S (onMutation S e p) gap)" by (rule at_rest_advance)
  then show ?case using Cons.IH by (simp add: m)
qed









text \<open>
  The engine is at rest when no timeout is pending and none was ever set, as after the
  load, and stays at rest through mutations and waits; so the theorem applies after any
  history of mutations and waits.
\<close>

lemma loaded_at_rest:
  assumes "timers e = []" and "saveTimeoutRef e = (\<lambda>_. None)"
  shows "at_rest S (burst S e ms)"
proof -
  have "at_rest S e" using assms by (simp add: at_rest_def engine_ok_def)
  then show ?thesis by (rule at_rest_burst)
qed







end
